theory Spec2Isabelle
  imports Main "HOL-Library.Multiset"
begin

section \<open>Data model\<close>

text \<open>
  The hash join operator of \<^verbatim>\<open>src/execution/operator/join/physical_hash_join.cpp\<close>.
  Sizes and indices (\<^verbatim>\<open>idx_t\<close>) are natural numbers: the operator only compares them and
  adds one to a vector length, far below the 64-bit range.
\<close>

text \<open>Modelled from the spec: the enum \<^verbatim>\<open>JoinType\<close> (its declaration is not among the
  sources); the source names INNER, SEMI, ANTI, MARK and OUTER, the spec adds LEFT.\<close>

datatype JoinType = INVALID | LEFT | RIGHT | INNER | OUTER | SEMI | ANTI | MARK | SINGLE

text \<open>What a run of the C++ can end in other than a result: a failed \<^verbatim>\<open>assert\<close>, or an
  unchecked \<^verbatim>\<open>operator[]\<close> past the end of a vector.\<close>

datatype failure = AssertionFailed | IndexOutOfRange

type_synonym 'v Vector = "'v list"

text \<open>Modelled from the spec: the generic column-chunk container (\<^verbatim>\<open>DataChunk\<close>, not among
  the sources): a batch is a list of columns and a row count. The operations are the ones the
  operator calls.\<close>

record 'v DataChunk =
  data :: "'v Vector list"
  cardinality :: nat

definition size_chunk :: "'v DataChunk \<Rightarrow> nat" where
  "size_chunk c = cardinality c"

definition empty_DataChunk :: "'v DataChunk" where
  "empty_DataChunk = \<lparr>data = [], cardinality = 0\<rparr>"

definition Initialize :: "'t list \<Rightarrow> 'v DataChunk" where
  "Initialize ts = \<lparr>data = map (\<lambda>_. []) ts, cardinality = 0\<rparr>"

definition Reset :: "'v DataChunk \<Rightarrow> 'v DataChunk" where
  "Reset c = \<lparr>data = map (\<lambda>_. []) (data c), cardinality = 0\<rparr>"

definition SetCardinality :: "'v DataChunk \<Rightarrow> nat \<Rightarrow> 'v DataChunk" where
  "SetCardinality c n = c\<lparr>cardinality := n\<rparr>"

text \<open>\<^verbatim>\<open>chunk.Reference(other)\<close>: the batch becomes a view of the other one, column by column,
  with its row count.\<close>

definition Reference :: "'v DataChunk \<Rightarrow> 'v DataChunk \<Rightarrow> 'v DataChunk" where
  "Reference c other = other"

definition Append :: "'v DataChunk \<Rightarrow> 'v DataChunk \<Rightarrow> 'v DataChunk" where
  "Append c other =
     (if size_chunk other = 0 then c
      else \<lparr>data = map2 (@) (data c) (data other),
            cardinality = cardinality c + cardinality other\<rparr>)"

text \<open>The rows of a batch, read across its columns.\<close>

definition rows_of :: "'v DataChunk \<Rightarrow> 'v list list" where
  "rows_of c = map (\<lambda>i. map (\<lambda>col. col ! i) (data c)) [0..<cardinality c]"

text \<open>A batch of \<open>k\<close> columns, each holding as many values as the batch has rows.\<close>

definition chunk_wf :: "nat \<Rightarrow> 'v DataChunk \<Rightarrow> bool" where
  "chunk_wf k c = (length (data c) = k \<and> list_all (\<lambda>col. length col = cardinality c) (data c))"

record ('t, 'x) Expression =
  return_type :: 't
  expr :: 'x

record ('t, 'x) JoinCondition =
  left :: "('t, 'x) Expression"
  right :: "('t, 'x) Expression"

text \<open>The operator. A child operator is represented by the types it returns
  (\<^verbatim>\<open>GetTypes()\<close>), the only thing the constructor reads from it; \<open>types\<close> are the
  operator's own result types.\<close>

record ('t, 'x) PhysicalHashJoin =
  types :: "'t list"
  children :: "'t list list"
  conditions :: "('t, 'x) JoinCondition list"
  join_type :: JoinType
  right_projection_map :: "nat list"
  condition_types :: "'t list"
  build_types :: "'t list"
  delim_types :: "'t list"

text \<open>Modelled from the spec: \<^verbatim>\<open>LogicalOperator::MapTypes\<close> (not among the sources). An
  empty projection map stands for all columns; otherwise the mapped columns are selected in
  map order. An index past the end of the types is an unchecked read in C++.\<close>

definition MapTypes :: "'t list \<Rightarrow> nat list \<Rightarrow> failure + 't list" where
  "MapTypes ts projection_map =
     (if projection_map = [] then Inr ts
      else if list_all (\<lambda>index. index < length ts) projection_map
        then Inr (map (\<lambda>index. ts ! index) projection_map)
      else Inl IndexOutOfRange)"

text \<open>The constructor (lines 13 to 30). The \<^verbatim>\<open>assert\<close> of line 21 is checked in a build
  without \<^verbatim>\<open>NDEBUG\<close> and compiled out in a build with it; which build it is is the first
  argument. The left projection map is read nowhere else.\<close>

definition PhysicalHashJoin_new ::
  "bool \<Rightarrow> 't list \<Rightarrow> 't list \<Rightarrow> 't list \<Rightarrow> ('t, 'x) JoinCondition list \<Rightarrow> JoinType \<Rightarrow>
   nat list \<Rightarrow> nat list \<Rightarrow> failure + ('t, 'x) PhysicalHashJoin" where
  "PhysicalHashJoin_new NDEBUG op_types l r cond jt left_projection_map rpm =
     (let this = \<lparr>types = op_types, children = [l, r], conditions = cond, join_type = jt,
                  right_projection_map = rpm, condition_types = [], build_types = [],
                  delim_types = []\<rparr>
      in if \<not> NDEBUG \<and> length left_projection_map \<noteq> 0 then Inl AssertionFailed
         else
           let this = this\<lparr>condition_types :=
                             map (\<lambda>condition. return_type (left condition)) (conditions this)\<rparr>
           in if jt \<noteq> ANTI \<and> jt \<noteq> SEMI \<and> jt \<noteq> MARK
              then (case MapTypes (children this ! 1) rpm of
                      Inl e \<Rightarrow> Inl e
                    | Inr bt \<Rightarrow> Inr (this\<lparr>build_types := bt\<rparr>))
              else Inr this)"

text \<open>The five-argument constructor delegates with two empty projection maps.\<close>

definition PhysicalHashJoin_new5 ::
  "bool \<Rightarrow> 't list \<Rightarrow> 't list \<Rightarrow> 't list \<Rightarrow> ('t, 'x) JoinCondition list \<Rightarrow> JoinType \<Rightarrow>
   failure + ('t, 'x) PhysicalHashJoin" where
  "PhysicalHashJoin_new5 NDEBUG op_types l r cond jt =
     PhysicalHashJoin_new NDEBUG op_types l r cond jt [] []"

subsection \<open>The hash table and the global state\<close>

record 't AggregateFunction =
  fun_name :: string
  fun_return_type :: 't

record 't BoundAggregateExpression =
  aggr_return_type :: 't
  aggr_function :: "'t AggregateFunction"
  aggr_distinct :: bool

text \<open>The side aggregation table, by the arguments of its constructor.\<close>

record 't SuperLargeHashTable =
  initial_capacity :: nat
  group_types :: "'t list"
  payload_types :: "'t list"
  aggregates :: "'t BoundAggregateExpression list"

record ('t, 'v) CorrelatedMarkJoinInfo =
  correlated_counts :: "'t SuperLargeHashTable option"
  correlated_aggregates :: "'t BoundAggregateExpression list"
  correlated_types :: "'t list"
  group_chunk :: "'v DataChunk"
  payload_chunk :: "'v DataChunk"
  result_chunk :: "'v DataChunk"

text \<open>Modelled from the spec: the attributes of \<^verbatim>\<open>JoinHashTable\<close> the operator reads
  (\<^verbatim>\<open>size()\<close> is \<open>ht_count\<close>); its buckets are the opaque \<open>ht_store\<close>. A new table holds no
  rows and no correlated mark-join side structure.\<close>

record ('t, 'x, 'v, 'h) JoinHashTable =
  ht_conditions :: "('t, 'x) JoinCondition list"
  ht_build_types :: "'t list"
  ht_join_type :: JoinType
  has_null :: bool
  ht_count :: nat
  correlated_mark_join_info :: "('t, 'v) CorrelatedMarkJoinInfo"
  ht_store :: 'h

definition JoinHashTable_new ::
  "'h \<Rightarrow> ('t, 'x) JoinCondition list \<Rightarrow> 't list \<Rightarrow> JoinType \<Rightarrow> ('t, 'x, 'v, 'h) JoinHashTable" where
  "JoinHashTable_new buffers conds bt jt =
     \<lparr>ht_conditions = conds, ht_build_types = bt, ht_join_type = jt, has_null = False,
      ht_count = 0,
      correlated_mark_join_info =
        \<lparr>correlated_counts = None, correlated_aggregates = [], correlated_types = [],
         group_chunk = empty_DataChunk, payload_chunk = empty_DataChunk,
         result_chunk = empty_DataChunk\<rparr>,
      ht_store = buffers\<rparr>"

record ('t, 'x, 'v, 'h, 'fs) HashJoinGlobalState =
  hash_table :: "('t, 'x, 'v, 'h) JoinHashTable"
  ht_scan_state :: 'fs

text \<open>\<^verbatim>\<open>GetGlobalState\<close>. The two aggregate functions (\<^verbatim>\<open>CountStarFun::GetFunction()\<close>,
  \<^verbatim>\<open>CountFun::GetFunction()\<close>), the buffer manager's store and the initial scan cursor come
  from outside the sources and are arguments. The loop over the aggregate functions is a fold
  over (info, payload types, aggregates).\<close>

definition add_correlated_aggregate ::
  "('t, 'v) CorrelatedMarkJoinInfo \<times> 't list \<times> 't BoundAggregateExpression list \<Rightarrow>
   't AggregateFunction \<Rightarrow>
   ('t, 'v) CorrelatedMarkJoinInfo \<times> 't list \<times> 't BoundAggregateExpression list" where
  "add_correlated_aggregate acc f =
     (case acc of (info, payload_ts, correlated_aggrs) \<Rightarrow>
        let aggr = \<lparr>aggr_return_type = fun_return_type f, aggr_function = f,
                    aggr_distinct = False\<rparr>
        in (info\<lparr>correlated_aggregates := correlated_aggregates info @ [aggr]\<rparr>,
            payload_ts @ [fun_return_type f],
            correlated_aggrs @ [aggr]))"

definition GetGlobalState ::
  "'t AggregateFunction \<Rightarrow> 't AggregateFunction \<Rightarrow> 'h \<Rightarrow> 'fs \<Rightarrow> ('t, 'x) PhysicalHashJoin \<Rightarrow>
   ('t, 'x, 'v, 'h, 'fs) HashJoinGlobalState" where
  "GetGlobalState CountStarFun CountFun buffers cursor this =
     (let state = \<lparr>hash_table = JoinHashTable_new buffers (conditions this) (build_types this)
                                   (join_type this),
                   ht_scan_state = cursor\<rparr>
      in if length (delim_types this) > 0 \<and> join_type this = MARK
         then
           if length (delim_types this) + 1 = length (conditions this)
           then
             let info = correlated_mark_join_info (hash_table state);
                 aggregate_functions = [CountStarFun, CountFun];
                 (info, payload_ts, correlated_aggrs) =
                    foldl add_correlated_aggregate (info, [], []) aggregate_functions;
                 info = info\<lparr>correlated_counts :=
                               Some \<lparr>initial_capacity = 1024, group_types = delim_types this,
                                     payload_types = payload_ts,
                                     aggregates = correlated_aggrs\<rparr>\<rparr>;
                 info = info\<lparr>correlated_types := delim_types this\<rparr>;
                 info = info\<lparr>group_chunk := Initialize (delim_types this)\<rparr>;
                 info = info\<lparr>payload_chunk := Initialize payload_ts\<rparr>;
                 info = info\<lparr>result_chunk := Initialize payload_ts\<rparr>
             in state\<lparr>hash_table := (hash_table state)\<lparr>correlated_mark_join_info := info\<rparr>\<rparr>
           else state
         else state)"

subsection \<open>Collaborators\<close>

text \<open>
  The hash table's operations, the scan structure, the expression executor and
  \<^verbatim>\<open>ConstructEmptyJoinResult\<close> are not among the sources. The operator is verified for
  every behaviour of them: they are arguments, collected in one record. A C++ output
  parameter is the function's result; the operator passes these collaborators an output
  batch that is empty (the caller resets it, and line 199 resets it before probing again),
  so the result does not depend on it. A scan structure and the full-outer scan cursor are
  states of types \<open>'ss\<close> and \<open>'fs\<close>, returned updated.
\<close>

record ('t, 'x, 'v, 'h, 'ss, 'fs) collaborators =
  Execute :: "('t, 'x) Expression list \<Rightarrow> 'v DataChunk \<Rightarrow> 'v DataChunk"
  Build :: "('t, 'x, 'v, 'h) JoinHashTable \<Rightarrow> 'v DataChunk \<Rightarrow> 'v DataChunk \<Rightarrow>
            ('t, 'x, 'v, 'h) JoinHashTable"
  Finalize_table :: "('t, 'x, 'v, 'h) JoinHashTable \<Rightarrow> ('t, 'x, 'v, 'h) JoinHashTable"
  Probe :: "('t, 'x, 'v, 'h) JoinHashTable \<Rightarrow> 'v DataChunk \<Rightarrow> 'ss"
  Next :: "'ss \<Rightarrow> 'v DataChunk \<Rightarrow> 'v DataChunk \<Rightarrow> 'v DataChunk \<times> 'ss"
  ScanFullOuter :: "('t, 'x, 'v, 'h) JoinHashTable \<Rightarrow> 'fs \<Rightarrow> 'v DataChunk \<times> 'fs"
  ConstructEmptyJoinResult :: "JoinType \<Rightarrow> bool \<Rightarrow> 'v DataChunk \<Rightarrow> 'v DataChunk"

text \<open>Modelled from the spec: the expression evaluator (\<^verbatim>\<open>ExpressionExecutor\<close>, not among the
  sources), which "evaluates a fixed ordered list of previously-registered expressions against
  \<^verbatim>\<open>input_batch\<close>, writing one output column per expression, preserving row count and row
  correspondence". \<open>ev e c\<close> is the column of expression \<open>e\<close> over the batch \<open>c\<close>.\<close>

definition ExpressionExecutor_Execute ::
  "(('t, 'x) Expression \<Rightarrow> 'v DataChunk \<Rightarrow> 'v Vector) \<Rightarrow> ('t, 'x) Expression list \<Rightarrow>
   'v DataChunk \<Rightarrow> 'v DataChunk" where
  "ExpressionExecutor_Execute ev exprs input =
     \<lparr>data = map (\<lambda>e. ev e input) exprs, cardinality = cardinality input\<rparr>"

section \<open>Sink\<close>

text \<open>\<^verbatim>\<open>HashJoinLocalState\<close>; its \<^verbatim>\<open>join_keys\<close> is \<open>sink_join_keys\<close> here, and the executor
  is the list of expressions added to it.\<close>

record ('t, 'x, 'v) HashJoinLocalState =
  build_chunk :: "'v DataChunk"
  sink_join_keys :: "'v DataChunk"
  build_executor :: "('t, 'x) Expression list"

definition GetLocalSinkState :: "('t, 'x) PhysicalHashJoin \<Rightarrow> ('t, 'x, 'v) HashJoinLocalState" where
  "GetLocalSinkState this =
     \<lparr>build_chunk = (if length (right_projection_map this) > 0
                      then Initialize (build_types this) else empty_DataChunk),
      sink_join_keys = Initialize (condition_types this),
      build_executor = map (\<lambda>cond. right cond) (conditions this)\<rparr>"

text \<open>Line 120, \<^verbatim>\<open>build_chunk.data[i].Reference(input.data[right_projection_map[i]])\<close>: both
  subscripts are unchecked.\<close>

definition reference_column ::
  "'v DataChunk \<Rightarrow> nat list \<Rightarrow> 'v DataChunk \<Rightarrow> nat \<Rightarrow> failure + 'v DataChunk" where
  "reference_column input rpm bc i =
     (if i < length (data bc) \<and> rpm ! i < length (data input)
      then Inr (bc\<lparr>data := (data bc)[i := data input ! (rpm ! i)]\<rparr>)
      else Inl IndexOutOfRange)"

fun reference_columns ::
  "'v DataChunk \<Rightarrow> nat list \<Rightarrow> 'v DataChunk \<Rightarrow> nat list \<Rightarrow> failure + 'v DataChunk" where
  "reference_columns input rpm bc [] = Inr bc"
| "reference_columns input rpm bc (i # is) =
     (case reference_column input rpm bc i of
        Inl e \<Rightarrow> Inl e
      | Inr bc' \<Rightarrow> reference_columns input rpm bc' is)"

definition Sink ::
  "('t, 'x, 'v, 'h, 'ss, 'fs) collaborators \<Rightarrow> ('t, 'x) PhysicalHashJoin \<Rightarrow>
   ('t, 'x, 'v, 'h, 'fs) HashJoinGlobalState \<Rightarrow> ('t, 'x, 'v) HashJoinLocalState \<Rightarrow> 'v DataChunk \<Rightarrow>
   failure + (('t, 'x, 'v, 'h, 'fs) HashJoinGlobalState \<times> ('t, 'x, 'v) HashJoinLocalState)" where
  "Sink X this sink lstate input =
     (let lstate = lstate\<lparr>sink_join_keys := Execute X (build_executor lstate) input\<rparr>
      in if length (right_projection_map this) > 0
         then
           let bc = Reset (build_chunk lstate);
               bc = SetCardinality bc (size_chunk input)
           in (case reference_columns input (right_projection_map this) bc
                      [0..<length (right_projection_map this)] of
                 Inl e \<Rightarrow> Inl e
               | Inr bc \<Rightarrow>
                   let lstate = lstate\<lparr>build_chunk := bc\<rparr>
                   in Inr (sink\<lparr>hash_table := Build X (hash_table sink) (sink_join_keys lstate)
                                                 (build_chunk lstate)\<rparr>,
                           lstate))
         else Inr (sink\<lparr>hash_table := Build X (hash_table sink) (sink_join_keys lstate) input\<rparr>,
                   lstate))"

text \<open>The local sink states of an operator: the one \<open>GetLocalSinkState\<close> creates, and every
  state a successful \<open>Sink\<close> leaves.\<close>

inductive local_sink_state ::
  "('t, 'x, 'v, 'h, 'ss, 'fs) collaborators \<Rightarrow> ('t, 'x) PhysicalHashJoin \<Rightarrow>
   ('t, 'x, 'v) HashJoinLocalState \<Rightarrow> bool"
  for X :: "('t, 'x, 'v, 'h, 'ss, 'fs) collaborators" and this :: "('t, 'x) PhysicalHashJoin" where
  created: "local_sink_state X this (GetLocalSinkState this)"
| sunk: "local_sink_state X this lstate \<Longrightarrow>
         Sink X this (sink :: ('t, 'x, 'v, 'h, 'fs) HashJoinGlobalState) lstate input
           = Inr (sink', lstate') \<Longrightarrow>
         local_sink_state X this lstate'"

code_pred local_sink_state .

definition Finalize ::
  "('t, 'x, 'v, 'h, 'ss, 'fs) collaborators \<Rightarrow> ('t, 'x, 'v, 'h, 'fs) HashJoinGlobalState \<Rightarrow>
   ('t, 'x, 'v, 'h, 'fs) HashJoinGlobalState" where
  "Finalize X sink = sink\<lparr>hash_table := Finalize_table X (hash_table sink)\<rparr>"

section \<open>GetChunkInternal\<close>

text \<open>\<^verbatim>\<open>PhysicalHashJoinState\<close>, with the members of \<^verbatim>\<open>PhysicalOperatorState\<close> it uses.
  Modelled from the spec: the probe-side child is a pull interface, an empty batch being the
  end of its stream; \<open>child_state\<close> is the list of batches the child has yet to return, and
  \<open>child_calls\<close> counts the calls of its \<^verbatim>\<open>GetChunk\<close>.\<close>

record ('t, 'x, 'v, 'ss) PhysicalHashJoinState =
  child_chunk :: "'v DataChunk"
  child_state :: "'v DataChunk list"
  child_calls :: nat
  cached_chunk :: "'v DataChunk"
  join_keys :: "'v DataChunk"
  probe_executor :: "('t, 'x) Expression list"
  scan_structure :: "'ss option"

definition GetOperatorState ::
  "('t, 'x) PhysicalHashJoin \<Rightarrow> 'v DataChunk list \<Rightarrow> ('t, 'x, 'v, 'ss) PhysicalHashJoinState" where
  "GetOperatorState this stream =
     \<lparr>child_chunk = Initialize (children this ! 0),
      child_state = stream,
      child_calls = 0,
      cached_chunk = Initialize (types this),
      join_keys = Initialize (condition_types this),
      probe_executor = map (\<lambda>cond. left cond) (conditions this),
      scan_structure = None\<rparr>"

text \<open>\<^verbatim>\<open>children[0]->GetChunk(context, state->child_chunk, state->child_state.get())\<close>.\<close>

definition child_GetChunk ::
  "('t, 'x, 'v, 'ss) PhysicalHashJoinState \<Rightarrow> ('t, 'x, 'v, 'ss) PhysicalHashJoinState" where
  "child_GetChunk st =
     (case child_state st of
        [] \<Rightarrow> st\<lparr>child_chunk := Reset (child_chunk st), child_calls := Suc (child_calls st)\<rparr>
      | c # cs \<Rightarrow> st\<lparr>child_chunk := c, child_state := cs, child_calls := Suc (child_calls st)\<rparr>)"

text \<open>The do-while loop of \<^verbatim>\<open>ProbeHashTable\<close> (lines 226 to 242).\<close>

function probe_loop ::
  "('t, 'x, 'v, 'h, 'ss, 'fs) collaborators \<Rightarrow> ('t, 'x, 'v, 'h, 'fs) HashJoinGlobalState \<Rightarrow>
   'v DataChunk \<Rightarrow> ('t, 'x, 'v, 'ss) PhysicalHashJoinState \<Rightarrow>
   'v DataChunk \<times> ('t, 'x, 'v, 'ss) PhysicalHashJoinState" where
  "probe_loop X sink chunk st =
     (let st = child_GetChunk st
      in if size_chunk (child_chunk st) = 0 then (chunk, st)
         else if ht_count (hash_table sink) = 0
         then (ConstructEmptyJoinResult X (ht_join_type (hash_table sink))
                 (has_null (hash_table sink)) (child_chunk st), st)
         else
           let st = st\<lparr>join_keys := Execute X (probe_executor st) (child_chunk st)\<rparr>;
               ss = Probe X (hash_table sink) (join_keys st);
               r = Next X ss (join_keys st) (child_chunk st);
               st = st\<lparr>scan_structure := Some (snd r)\<rparr>
           in if size_chunk (fst r) = 0 then probe_loop X sink (fst r) st else (fst r, st))"
  by pat_completeness auto
termination
  by (relation "measure (\<lambda>(X, sink, chunk, st). length (child_state st))")
     (auto simp: child_GetChunk_def Reset_def size_chunk_def split: list.splits)

declare probe_loop.simps [simp del]

definition ProbeHashTable ::
  "('t, 'x, 'v, 'h, 'ss, 'fs) collaborators \<Rightarrow> ('t, 'x, 'v, 'h, 'fs) HashJoinGlobalState \<Rightarrow>
   'v DataChunk \<Rightarrow> ('t, 'x, 'v, 'ss) PhysicalHashJoinState \<Rightarrow>
   'v DataChunk \<times> ('t, 'x, 'v, 'ss) PhysicalHashJoinState" where
  "ProbeHashTable X sink chunk st =
     (case (if size_chunk (child_chunk st) > 0 then scan_structure st else None) of
        Some ss \<Rightarrow>
          let r = Next X ss (join_keys st) (child_chunk st);
              st = st\<lparr>scan_structure := Some (snd r)\<rparr>
          in if size_chunk (fst r) > 0 then (fst r, st)
             else probe_loop X sink (fst r) (st\<lparr>scan_structure := None\<rparr>)
      | None \<Rightarrow> probe_loop X sink chunk st)"

text \<open>
  The do-while loop of \<^verbatim>\<open>GetChunkInternal\<close> (lines 172 to 208). The preprocessor condition
  \<^verbatim>\<open>STANDARD_VECTOR_SIZE >= 128\<close>, the small-batch threshold \<^verbatim>\<open>64\<close> and the flush capacity
  \<^verbatim>\<open>STANDARD_VECTOR_SIZE - 64\<close> are the arguments \<open>caching\<close>, \<open>threshold\<close> and \<open>capacity\<close>, so
  that the coalescing can be compared across their values; \<open>GetChunkInternal\<close> below passes the
  values of the source. The global state is returned too: \<^verbatim>\<open>ScanFullOuter\<close> advances its
  cursor.
\<close>

function GetChunkLoop ::
  "bool \<Rightarrow> nat \<Rightarrow> nat \<Rightarrow> ('t, 'x, 'v, 'h, 'ss, 'fs) collaborators \<Rightarrow> ('t, 'x) PhysicalHashJoin \<Rightarrow>
   ('t, 'x, 'v, 'h, 'fs) HashJoinGlobalState \<Rightarrow> 'v DataChunk \<Rightarrow>
   ('t, 'x, 'v, 'ss) PhysicalHashJoinState \<Rightarrow>
   'v DataChunk \<times> ('t, 'x, 'v, 'ss) PhysicalHashJoinState \<times> ('t, 'x, 'v, 'h, 'fs) HashJoinGlobalState" where
  "GetChunkLoop caching threshold capacity X this sink chunk st =
     (let p = ProbeHashTable X sink chunk st;
          chunk = fst p;
          st = snd p
      in if size_chunk chunk = 0
         then
           if caching \<and> size_chunk (cached_chunk st) > 0
           then (Reference chunk (cached_chunk st),
                 st\<lparr>cached_chunk := Reset (cached_chunk st)\<rparr>, sink)
           else if join_type this = OUTER
           then
             let r = ScanFullOuter X (hash_table sink) (ht_scan_state sink)
             in (fst r, st, sink\<lparr>ht_scan_state := snd r\<rparr>)
           else (chunk, st, sink)
         else
           if caching
           then
             if size_chunk chunk < threshold
             then
               let st = st\<lparr>cached_chunk := Append (cached_chunk st) chunk\<rparr>
               in if size_chunk (cached_chunk st) \<ge> capacity
                  then (Reference chunk (cached_chunk st),
                        st\<lparr>cached_chunk := Reset (cached_chunk st)\<rparr>, sink)
                  else GetChunkLoop caching threshold capacity X this sink (Reset chunk) st
             else (chunk, st, sink)
           else (chunk, st, sink))"
  by pat_completeness auto
termination
proof (relation "measure (\<lambda>(caching, threshold, capacity, X, this, sink, chunk, st).
                            capacity - size_chunk (cached_chunk st))")
  show "wf (measure (\<lambda>(caching, threshold, capacity, X, this, sink, chunk, st).
                            capacity - size_chunk (cached_chunk st)))"
    by simp
next
  fix caching :: bool and threshold capacity :: nat
    and X :: "('t, 'x, 'v, 'h, 'ss, 'fs) collaborators"
    and this :: "('t, 'x) PhysicalHashJoin"
    and sink :: "('t, 'x, 'v, 'h, 'fs) HashJoinGlobalState"
    and chunk :: "'v DataChunk"
    and st :: "('t, 'x, 'v, 'ss) PhysicalHashJoinState"
    and p chunk' st' st''
  assume p: "p = ProbeHashTable X sink chunk st" and c: "chunk' = fst p" and s: "st' = snd p"
    and nonempty: "size_chunk chunk' \<noteq> 0"
    and st'': "st'' = st'\<lparr>cached_chunk := Append (cached_chunk st') chunk'\<rparr>"
    and room: "\<not> capacity \<le> size_chunk (cached_chunk st'')"
  have loop: "cached_chunk (snd (probe_loop Y g ch s)) = cached_chunk s"
    for Y :: "('t, 'x, 'v, 'h, 'ss, 'fs) collaborators" and g ch s
  proof (induction Y g ch s rule: probe_loop.induct)
    case (1 Y g ch s)
    have fetch: "cached_chunk (child_GetChunk s) = cached_chunk s"
      by (simp add: child_GetChunk_def split: list.splits)
    show ?case
      apply (subst probe_loop.simps)
      using "1.IH" fetch
      apply (simp add: Let_def)
      done
  qed
  have "cached_chunk st' = cached_chunk st"
    unfolding s p ProbeHashTable_def by (simp add: loop Let_def split: option.splits)
  then have "size_chunk (cached_chunk st'') = size_chunk (cached_chunk st) + size_chunk chunk'"
    using nonempty by (simp add: st'' Append_def size_chunk_def)
  then show "((caching, threshold, capacity, X, this, sink, Reset chunk', st''),
              (caching, threshold, capacity, X, this, sink, chunk, st))
             \<in> measure (\<lambda>(caching, threshold, capacity, X, this, sink, chunk, st).
                            capacity - size_chunk (cached_chunk st))"
    using nonempty room by simp
qed

text \<open>\<^verbatim>\<open>GetChunkInternal\<close>, for a build whose \<^verbatim>\<open>STANDARD_VECTOR_SIZE\<close> is the first argument
  (the macro is not among the sources). The caller passes the output batch \<open>chunk\<close> empty.\<close>

definition GetChunkInternal ::
  "nat \<Rightarrow> ('t, 'x, 'v, 'h, 'ss, 'fs) collaborators \<Rightarrow> ('t, 'x) PhysicalHashJoin \<Rightarrow>
   ('t, 'x, 'v, 'h, 'fs) HashJoinGlobalState \<Rightarrow> 'v DataChunk \<Rightarrow>
   ('t, 'x, 'v, 'ss) PhysicalHashJoinState \<Rightarrow>
   'v DataChunk \<times> ('t, 'x, 'v, 'ss) PhysicalHashJoinState \<times> ('t, 'x, 'v, 'h, 'fs) HashJoinGlobalState" where
  "GetChunkInternal STANDARD_VECTOR_SIZE X this sink chunk st =
     (if ht_count (hash_table sink) = 0 \<and>
         (ht_join_type (hash_table sink) = INNER \<or> ht_join_type (hash_table sink) = SEMI)
      then (chunk, st, sink)
      else GetChunkLoop (STANDARD_VECTOR_SIZE \<ge> 128) 64 (STANDARD_VECTOR_SIZE - 64)
             X this sink chunk st)"

declare GetChunkLoop.simps [simp del]

section \<open>The caller, and notions the properties are stated with\<close>

text \<open>Modelled from the spec: the caller's protocol (\<^verbatim>\<open>PhysicalOperator::GetChunk\<close> is not among
  the sources). The caller asks for the next output batch again and again and hands the output
  batch over empty each time. \<open>GetChunk_calls n\<close> is \<open>n\<close> successive calls: the batches
  returned, and the states after the last one.\<close>

definition GetChunk ::
  "nat \<Rightarrow> ('t, 'x, 'v, 'h, 'ss, 'fs) collaborators \<Rightarrow> ('t, 'x) PhysicalHashJoin \<Rightarrow>
   ('t, 'x, 'v, 'h, 'fs) HashJoinGlobalState \<Rightarrow> 'v DataChunk \<Rightarrow>
   ('t, 'x, 'v, 'ss) PhysicalHashJoinState \<Rightarrow>
   'v DataChunk \<times> ('t, 'x, 'v, 'ss) PhysicalHashJoinState \<times> ('t, 'x, 'v, 'h, 'fs) HashJoinGlobalState" where
  "GetChunk STANDARD_VECTOR_SIZE X this sink chunk st =
     GetChunkInternal STANDARD_VECTOR_SIZE X this sink (Reset chunk) st"

fun GetChunk_calls ::
  "nat \<Rightarrow> nat \<Rightarrow> ('t, 'x, 'v, 'h, 'ss, 'fs) collaborators \<Rightarrow> ('t, 'x) PhysicalHashJoin \<Rightarrow>
   ('t, 'x, 'v, 'h, 'fs) HashJoinGlobalState \<Rightarrow> 'v DataChunk \<Rightarrow>
   ('t, 'x, 'v, 'ss) PhysicalHashJoinState \<Rightarrow>
   'v DataChunk list \<times> ('t, 'x, 'v, 'ss) PhysicalHashJoinState \<times>
   ('t, 'x, 'v, 'h, 'fs) HashJoinGlobalState" where
  "GetChunk_calls 0 STANDARD_VECTOR_SIZE X this sink chunk st = ([], st, sink)"
| "GetChunk_calls (Suc n) STANDARD_VECTOR_SIZE X this sink chunk st =
     (let r = GetChunk STANDARD_VECTOR_SIZE X this sink chunk st;
          rest = GetChunk_calls n STANDARD_VECTOR_SIZE X this (snd (snd r)) (fst r) (fst (snd r))
      in (fst r # fst rest, snd rest))"

text \<open>The scan structure that probing the batch \<open>c\<close> creates, after its first slice has been
  taken (lines 237 to 241).\<close>

definition probed_structure ::
  "('t, 'x, 'v, 'h, 'ss, 'fs) collaborators \<Rightarrow> ('t, 'x, 'v, 'h, 'fs) HashJoinGlobalState \<Rightarrow>
   ('t, 'x, 'v, 'ss) PhysicalHashJoinState \<Rightarrow> 'v DataChunk \<Rightarrow> 'ss" where
  "probed_structure X sink st c =
     snd (Next X (Probe X (hash_table sink) (Execute X (probe_executor st) c))
            (Execute X (probe_executor st) c) c)"

text \<open>The probe side is done: the child's stream is exhausted, and a live scan structure, if
  there is one for a non-empty batch, has no slice left.\<close>

definition probe_done ::
  "('t, 'x, 'v, 'h, 'ss, 'fs) collaborators \<Rightarrow> ('t, 'x, 'v, 'ss) PhysicalHashJoinState \<Rightarrow> bool" where
  "probe_done X st =
     (child_state st = [] \<and>
      (case scan_structure st of
         None \<Rightarrow> True
       | Some ss \<Rightarrow> size_chunk (child_chunk st) = 0 \<or>
                   size_chunk (fst (Next X ss (join_keys st) (child_chunk st))) = 0))"

text \<open>The first \<open>n\<close> slices of the full-outer scan from a cursor.\<close>

fun outer_scan ::
  "nat \<Rightarrow> ('t, 'x, 'v, 'h, 'ss, 'fs) collaborators \<Rightarrow> ('t, 'x, 'v, 'h) JoinHashTable \<Rightarrow> 'fs \<Rightarrow>
   'v DataChunk list" where
  "outer_scan 0 X ht cursor = []"
| "outer_scan (Suc n) X ht cursor =
     fst (ScanFullOuter X ht cursor) # outer_scan n X ht (snd (ScanFullOuter X ht cursor))"

text \<open>\<^verbatim>\<open>GetChunkInternal\<close> for any coalescing configuration: coalescing compiled in or not, any
  small-batch threshold, any flush capacity. \<open>GetChunkInternal\<close> is the instance with the
  values of the source (lemma \<open>GetChunkInternal_is_with\<close>).\<close>

definition GetChunkInternal_with ::
  "bool \<Rightarrow> nat \<Rightarrow> nat \<Rightarrow> ('t, 'x, 'v, 'h, 'ss, 'fs) collaborators \<Rightarrow> ('t, 'x) PhysicalHashJoin \<Rightarrow>
   ('t, 'x, 'v, 'h, 'fs) HashJoinGlobalState \<Rightarrow> 'v DataChunk \<Rightarrow>
   ('t, 'x, 'v, 'ss) PhysicalHashJoinState \<Rightarrow>
   'v DataChunk \<times> ('t, 'x, 'v, 'ss) PhysicalHashJoinState \<times> ('t, 'x, 'v, 'h, 'fs) HashJoinGlobalState" where
  "GetChunkInternal_with caching threshold capacity X this sink chunk st =
     (if ht_count (hash_table sink) = 0 \<and>
         (ht_join_type (hash_table sink) = INNER \<or> ht_join_type (hash_table sink) = SEMI)
      then (chunk, st, sink)
      else GetChunkLoop caching threshold capacity X this sink chunk st)"

text \<open>Modelled from the spec: the caller pulls output batches until the first empty one, which
  ends the stream. \<open>drain\<close> collects the batches before it; the first argument bounds the
  number of calls, and \<open>None\<close> says that the stream did not end within them.\<close>

fun drain ::
  "nat \<Rightarrow> bool \<Rightarrow> nat \<Rightarrow> nat \<Rightarrow> ('t, 'x, 'v, 'h, 'ss, 'fs) collaborators \<Rightarrow> ('t, 'x) PhysicalHashJoin \<Rightarrow>
   ('t, 'x, 'v, 'h, 'fs) HashJoinGlobalState \<Rightarrow> 'v DataChunk \<Rightarrow>
   ('t, 'x, 'v, 'ss) PhysicalHashJoinState \<Rightarrow> 'v DataChunk list option" where
  "drain 0 caching threshold capacity X this sink chunk st = None"
| "drain (Suc fuel) caching threshold capacity X this sink chunk st =
     (let r = GetChunkInternal_with caching threshold capacity X this sink (Reset chunk) st
      in if size_chunk (fst r) = 0 then Some []
         else map_option ((#) (fst r))
                (drain fuel caching threshold capacity X this (snd (snd r)) (fst r) (fst (snd r))))"

declare drain.simps [simp del]

text \<open>All rows of a list of batches, as a multiset.\<close>

definition rows_mset :: "'v DataChunk list \<Rightarrow> 'v list multiset" where
  "rows_mset outs = mset (concat (map rows_of outs))"

text \<open>What \<open>ProbeHashTable\<close> produces in a state when it is handed an empty output batch, and
  the state it leaves.\<close>

definition probe_slice ::
  "('t, 'x, 'v, 'h, 'ss, 'fs) collaborators \<Rightarrow> ('t, 'x, 'v, 'h, 'fs) HashJoinGlobalState \<Rightarrow>
   ('t, 'x, 'v, 'ss) PhysicalHashJoinState \<Rightarrow> 'v DataChunk" where
  "probe_slice X sink st = fst (ProbeHashTable X sink empty_DataChunk st)"

definition probe_next ::
  "('t, 'x, 'v, 'h, 'ss, 'fs) collaborators \<Rightarrow> ('t, 'x, 'v, 'h, 'fs) HashJoinGlobalState \<Rightarrow>
   ('t, 'x, 'v, 'ss) PhysicalHashJoinState \<Rightarrow> ('t, 'x, 'v, 'ss) PhysicalHashJoinState" where
  "probe_next X sink st = snd (ProbeHashTable X sink empty_DataChunk st)"

text \<open>Two probe states that differ at most in the cache.\<close>

definition same_probe ::
  "('t, 'x, 'v, 'ss) PhysicalHashJoinState \<Rightarrow> ('t, 'x, 'v, 'ss) PhysicalHashJoinState \<Rightarrow> bool" where
  "same_probe st st' =
     (child_chunk st = child_chunk st' \<and> child_state st = child_state st' \<and>
      child_calls st = child_calls st' \<and> join_keys st = join_keys st' \<and>
      probe_executor st = probe_executor st' \<and> scan_structure st = scan_structure st')"

text \<open>The states in which one call of \<open>GetChunkInternal\<close> probes: the state it is called in
  and, after every small slice that it appends to the cache and does not return (lines 189 to
  199), the state in which it probes again.\<close>

inductive loop_reaches ::
  "bool \<Rightarrow> nat \<Rightarrow> nat \<Rightarrow> ('t, 'x, 'v, 'h, 'ss, 'fs) collaborators \<Rightarrow>
   ('t, 'x, 'v, 'h, 'fs) HashJoinGlobalState \<Rightarrow>
   ('t, 'x, 'v, 'ss) PhysicalHashJoinState \<Rightarrow> ('t, 'x, 'v, 'ss) PhysicalHashJoinState \<Rightarrow> bool"
  for caching :: bool and threshold :: nat and capacity :: nat
    and X :: "('t, 'x, 'v, 'h, 'ss, 'fs) collaborators"
    and sink :: "('t, 'x, 'v, 'h, 'fs) HashJoinGlobalState" where
  entry: "loop_reaches caching threshold capacity X sink st st"
| again: "caching \<Longrightarrow> 0 < size_chunk (probe_slice X sink st) \<Longrightarrow>
          size_chunk (probe_slice X sink st) < threshold \<Longrightarrow>
          size_chunk (Append (cached_chunk st) (probe_slice X sink st)) < capacity \<Longrightarrow>
          loop_reaches caching threshold capacity X sink
            ((probe_next X sink st)
               \<lparr>cached_chunk := Append (cached_chunk st) (probe_slice X sink st)\<rparr>) s \<Longrightarrow>
          loop_reaches caching threshold capacity X sink st s"

code_pred loop_reaches .

text \<open>The probe in a state finds the child at the end of its stream: after it the child has
  no batch left and the probe-side batch is the empty batch of the child's last answer.\<close>

definition probe_meets_end ::
  "('t, 'x, 'v, 'h, 'ss, 'fs) collaborators \<Rightarrow> ('t, 'x, 'v, 'h, 'fs) HashJoinGlobalState \<Rightarrow>
   ('t, 'x, 'v, 'ss) PhysicalHashJoinState \<Rightarrow> bool" where
  "probe_meets_end X sink st =
     (child_state (probe_next X sink st) = [] \<and>
      size_chunk (child_chunk (probe_next X sink st)) = 0)"

text \<open>What is left to do before the caller has drained the operator, as a tuple that every
  call returning rows makes smaller in the lexicographic order: the batches left in the
  child's stream, the slices left in a live scan structure (by a bound \<open>m\<close> on them), whether
  the cache holds rows, and the slices left in the full-outer scan (by a bound \<open>f\<close>).\<close>

definition live_slices ::
  "('ss \<Rightarrow> nat) \<Rightarrow> ('t, 'x, 'v, 'ss) PhysicalHashJoinState \<Rightarrow> nat" where
  "live_slices m st =
     (if 0 < size_chunk (child_chunk st)
      then (case scan_structure st of None \<Rightarrow> 0 | Some ss \<Rightarrow> Suc (m ss))
      else 0)"

definition call_rank ::
  "('ss \<Rightarrow> nat) \<Rightarrow> ('fs \<Rightarrow> nat) \<Rightarrow>
   ('t, 'x, 'v, 'ss) PhysicalHashJoinState \<times> ('t, 'x, 'v, 'h, 'fs) HashJoinGlobalState \<Rightarrow>
   nat \<times> nat \<times> nat \<times> nat" where
  "call_rank m f p =
     (length (child_state (fst p)), live_slices m (fst p),
      (if 0 < size_chunk (cached_chunk (fst p)) then 1 else 0), f (ht_scan_state (snd p)))"

section \<open>Example inputs\<close>

text \<open>Concrete operators, collaborators and states at which the theorems below are
  instantiated. \<open>example_join jt\<close> is what the constructor returns for a join of two
  one-column children on one condition (lemma \<open>example_join_constructed\<close>). Batches have two
  columns; \<open>rows_chunk n v\<close> holds \<open>n\<close> rows of the value \<open>v\<close>. The example hash table
  answers every probe with the same list of slices, which its scan structure hands out one
  by one; the full-outer cursor is the list of slices still to be scanned.\<close>

definition example_join :: "JoinType \<Rightarrow> (nat, unit) PhysicalHashJoin" where
  "example_join jt =
     \<lparr>types = [0, 0], children = [[0], [0]],
      conditions = [\<lparr>left = \<lparr>return_type = 0, expr = ()\<rparr>,
                     right = \<lparr>return_type = 0, expr = ()\<rparr>\<rparr>],
      join_type = jt, right_projection_map = [], condition_types = [0],
      build_types = (if jt = SEMI \<or> jt = ANTI \<or> jt = MARK then [] else [0]),
      delim_types = []\<rparr>"

definition rows_chunk :: "nat \<Rightarrow> nat \<Rightarrow> nat DataChunk" where
  "rows_chunk n v = \<lparr>data = [replicate n v, replicate n v], cardinality = n\<rparr>"

definition example_collaborators ::
  "nat DataChunk list \<Rightarrow> (nat, unit, nat, unit, nat DataChunk list, nat DataChunk list) collaborators" where
  "example_collaborators slices =
     \<lparr>Execute = (\<lambda>es c. c),
      Build = (\<lambda>ht keys payload. ht\<lparr>ht_count := ht_count ht + cardinality keys\<rparr>),
      Finalize_table = (\<lambda>ht. ht),
      Probe = (\<lambda>ht keys. slices),
      Next = (\<lambda>ss keys child. case ss of [] \<Rightarrow> (rows_chunk 0 0, []) | s # r \<Rightarrow> (s, r)),
      ScanFullOuter = (\<lambda>ht fs. case fs of [] \<Rightarrow> (rows_chunk 0 0, []) | s # r \<Rightarrow> (s, r)),
      ConstructEmptyJoinResult =
        (\<lambda>jt hn c. if jt = LEFT \<or> jt = OUTER \<or> jt = ANTI \<or> jt = MARK \<or> jt = SINGLE
                    then c else rows_chunk 0 0)\<rparr>"

definition example_sink ::
  "JoinType \<Rightarrow> nat \<Rightarrow> nat DataChunk list \<Rightarrow>
   (nat, unit, nat, unit, nat DataChunk list) HashJoinGlobalState" where
  "example_sink jt n cursor =
     \<lparr>hash_table = (JoinHashTable_new () (conditions (example_join jt))
                      (build_types (example_join jt)) jt)\<lparr>ht_count := n\<rparr>,
      ht_scan_state = cursor\<rparr>"

definition example_state ::
  "JoinType \<Rightarrow> nat DataChunk list \<Rightarrow> (nat, unit, nat, nat DataChunk list) PhysicalHashJoinState" where
  "example_state jt stream = GetOperatorState (example_join jt) stream"

text \<open>The two aggregate functions, a correlated mark join of two conditions over one
  correlation column, and a left join that projects the two columns of its right child in
  reverse order (lemma \<open>example_projecting_join_constructed\<close>) with a build-side batch.\<close>

definition example_count_star :: "nat AggregateFunction" where
  "example_count_star = \<lparr>fun_name = ''count_star'', fun_return_type = 1\<rparr>"

definition example_count :: "nat AggregateFunction" where
  "example_count = \<lparr>fun_name = ''count'', fun_return_type = 1\<rparr>"

definition example_correlated_mark_join :: "(nat, unit) PhysicalHashJoin" where
  "example_correlated_mark_join =
     (example_join MARK)
       \<lparr>conditions := [\<lparr>left = \<lparr>return_type = 0, expr = ()\<rparr>,
                         right = \<lparr>return_type = 0, expr = ()\<rparr>\<rparr>,
                        \<lparr>left = \<lparr>return_type = 0, expr = ()\<rparr>,
                         right = \<lparr>return_type = 0, expr = ()\<rparr>\<rparr>],
        delim_types := [0]\<rparr>"

definition example_projecting_join :: "(nat, unit) PhysicalHashJoin" where
  "example_projecting_join =
     \<lparr>types = [0, 0, 0], children = [[0], [0, 0]],
      conditions = [\<lparr>left = \<lparr>return_type = 0, expr = ()\<rparr>,
                     right = \<lparr>return_type = 0, expr = ()\<rparr>\<rparr>],
      join_type = LEFT, right_projection_map = [1, 0], condition_types = [0],
      build_types = [0, 0], delim_types = []\<rparr>"

definition example_input :: "nat DataChunk" where
  "example_input = \<lparr>data = [[1, 2], [3, 4]], cardinality = 2\<rparr>"

text \<open>The state after the first call on a stream of one batch whose probe yields the given slices.\<close>

definition example_after_first_call ::
  "nat DataChunk list \<Rightarrow> (nat, unit, nat, nat DataChunk list) PhysicalHashJoinState" where
  "example_after_first_call slices =
     fst (snd (GetChunk 1024 (example_collaborators slices) (example_join LEFT)
                 (example_sink LEFT 5 []) (rows_chunk 0 0) (example_state LEFT [rows_chunk 1 9])))"

text \<open>Collaborators whose scan structure is a counter: every probe has two slices, of two rows
  and of one row. The full-outer scan is empty.\<close>

definition example_counting_collaborators ::
  "(nat, unit, nat, unit, nat, nat) collaborators" where
  "example_counting_collaborators =
     \<lparr>Execute = (\<lambda>es c. c),
      Build = (\<lambda>ht keys payload. ht\<lparr>ht_count := ht_count ht + cardinality keys\<rparr>),
      Finalize_table = (\<lambda>ht. ht),
      Probe = (\<lambda>ht keys. 2),
      Next = (\<lambda>ss keys b. if ss = 0 then (rows_chunk 0 0, 0) else (rows_chunk ss ss, ss - 1)),
      ScanFullOuter = (\<lambda>ht fs. (rows_chunk 0 0, fs)),
      ConstructEmptyJoinResult = (\<lambda>jt hn b. rows_chunk (cardinality b) 0)\<rparr>"

definition example_counting_sink :: "(nat, unit, nat, unit, nat) HashJoinGlobalState" where
  "example_counting_sink =
     \<lparr>hash_table = (JoinHashTable_new () (conditions (example_join LEFT))
                      (build_types (example_join LEFT)) LEFT)\<lparr>ht_count := 5\<rparr>,
      ht_scan_state = 0\<rparr>"

definition example_counting_state :: "(nat, unit, nat, nat) PhysicalHashJoinState" where
  "example_counting_state = GetOperatorState (example_join LEFT) [rows_chunk 1 9]"

text \<open>A semi join that is given a right projection map, as the constructor returns it (its
  build types are empty), and collaborators whose executor is the evaluator above, every
  expression being the first column of its input.\<close>

definition example_semi_projecting_join :: "(nat, unit) PhysicalHashJoin" where
  "example_semi_projecting_join =
     \<lparr>types = [0], children = [[0], [0, 0]],
      conditions = [\<lparr>left = \<lparr>return_type = 0, expr = ()\<rparr>,
                     right = \<lparr>return_type = 0, expr = ()\<rparr>\<rparr>],
      join_type = SEMI, right_projection_map = [1], condition_types = [0],
      build_types = [], delim_types = []\<rparr>"

definition example_key_collaborators ::
  "(nat, unit, nat, unit, nat DataChunk list, nat DataChunk list) collaborators" where
  "example_key_collaborators =
     (example_collaborators [])\<lparr>Execute := ExpressionExecutor_Execute (\<lambda>e c. data c ! 0)\<rparr>"

text \<open>The state of a full outer join in which the first call probes for the second time, on a
  stream of one batch whose probe yields one slice of one row: the slice is in the cache.\<close>

definition example_outer_caching_state ::
  "(nat, unit, nat, nat DataChunk list) PhysicalHashJoinState" where
  "example_outer_caching_state =
     (example_state OUTER [])
       \<lparr>child_chunk := rows_chunk 1 9, child_calls := 1, cached_chunk := rows_chunk 1 2,
        join_keys := rows_chunk 1 9, scan_structure := Some []\<rparr>"

section \<open>Basic facts about the model\<close>

lemma example_join_constructed:
  "PhysicalHashJoin_new NDEBUG [0, 0] [0] [0]
     [\<lparr>left = \<lparr>return_type = 0, expr = ()\<rparr>, right = \<lparr>return_type = 0, expr = ()\<rparr>\<rparr>] jt [] []
   = Inr (example_join jt)"
  by (simp add: PhysicalHashJoin_new_def example_join_def MapTypes_def Let_def)

lemma Reset_Reset [simp]: "Reset (Reset c) = Reset c"
  by (simp add: Reset_def)

lemma size_Reset [simp]: "size_chunk (Reset c) = 0"
  by (simp add: Reset_def size_chunk_def)

lemma child_GetChunk_fields [simp]:
  "cached_chunk (child_GetChunk st) = cached_chunk st"
  "probe_executor (child_GetChunk st) = probe_executor st"
  "scan_structure (child_GetChunk st) = scan_structure st"
  "join_keys (child_GetChunk st) = join_keys st"
  "child_calls (child_GetChunk st) = Suc (child_calls st)"
  by (simp_all add: child_GetChunk_def split: list.splits)

lemma probe_loop_cached [simp]:
  "cached_chunk (snd (probe_loop X sink chunk st)) = cached_chunk st"
proof (induction X sink chunk st rule: probe_loop.induct)
  case (1 X sink chunk st)
  show ?case
    apply (subst probe_loop.simps)
    using "1.IH"
    apply (simp add: Let_def)
    done
qed

lemma ProbeHashTable_cached [simp]:
  "cached_chunk (snd (ProbeHashTable X sink chunk st)) = cached_chunk st"
  by (simp add: ProbeHashTable_def Let_def split: option.splits)

lemma GetChunkLoop_unfold:
  "GetChunkLoop caching threshold capacity X this sink chunk st =
     (let slice = fst (ProbeHashTable X sink chunk st);
          st1 = snd (ProbeHashTable X sink chunk st)
      in if size_chunk slice = 0
         then if caching \<and> 0 < size_chunk (cached_chunk st)
              then (cached_chunk st, st1\<lparr>cached_chunk := Reset (cached_chunk st)\<rparr>, sink)
              else if join_type this = OUTER
              then (fst (ScanFullOuter X (hash_table sink) (ht_scan_state sink)), st1,
                    sink\<lparr>ht_scan_state := snd (ScanFullOuter X (hash_table sink) (ht_scan_state sink))\<rparr>)
              else (slice, st1, sink)
         else if caching \<and> size_chunk slice < threshold
         then if capacity \<le> size_chunk (Append (cached_chunk st) slice)
              then (Append (cached_chunk st) slice,
                    st1\<lparr>cached_chunk := Reset (Append (cached_chunk st) slice)\<rparr>, sink)
              else GetChunkLoop caching threshold capacity X this sink (Reset slice)
                     (st1\<lparr>cached_chunk := Append (cached_chunk st) slice\<rparr>)
         else (slice, st1, sink))"
  apply (subst GetChunkLoop.simps)
  apply (simp add: Let_def Reference_def)
  done

lemmas example_defs =
  GetChunk_def GetChunkInternal_def GetChunkLoop_unfold ProbeHashTable_def probe_loop.simps
  child_GetChunk_def example_collaborators_def example_join_def example_sink_def example_state_def
  GetOperatorState_def JoinHashTable_new_def rows_chunk_def Let_def Initialize_def Reset_def
  size_chunk_def Append_def

lemma GetChunkLoop_cache_bound:
  "size_chunk (cached_chunk st) < capacity \<Longrightarrow>
   size_chunk (cached_chunk (fst (snd (GetChunkLoop caching threshold capacity X this sink chunk st))))
     < capacity"
proof (induction caching threshold capacity X this sink chunk st rule: GetChunkLoop.induct)
  case (1 caching threshold capacity X this sink chunk st)
  let ?slice = "fst (ProbeHashTable X sink chunk st)"
  let ?st1 = "snd (ProbeHashTable X sink chunk st)"
  let ?st2 = "?st1\<lparr>cached_chunk := Append (cached_chunk st) ?slice\<rparr>"
  show ?case
  proof (cases "size_chunk ?slice \<noteq> 0 \<and> caching \<and> size_chunk ?slice < threshold \<and>
                \<not> capacity \<le> size_chunk (Append (cached_chunk st) ?slice)")
    case True
    then have "size_chunk (cached_chunk (fst (snd
                 (GetChunkLoop caching threshold capacity X this sink (Reset ?slice) ?st2))))
               < capacity"
      using "1.IH"[OF refl refl refl, of ?st2] by simp
    then show ?thesis
      using True by (subst GetChunkLoop_unfold) (simp add: Let_def)
  next
    case False
    then show ?thesis
      using "1.prems" by (subst GetChunkLoop_unfold) (auto simp: Let_def)
  qed
qed

lemma GetGlobalState_info:
  "correlated_mark_join_info (hash_table
      (GetGlobalState CountStarFun CountFun buffers cursor this
         :: ('t, 'x, 'v, 'h, 'fs) HashJoinGlobalState)) =
   (if delim_types this \<noteq> [] \<and> join_type this = MARK \<and>
       length (conditions this) = length (delim_types this) + 1
    then
      \<lparr>correlated_counts =
         Some \<lparr>initial_capacity = 1024, group_types = delim_types this,
               payload_types = [fun_return_type CountStarFun, fun_return_type CountFun],
               aggregates =
                 [\<lparr>aggr_return_type = fun_return_type CountStarFun,
                   aggr_function = CountStarFun, aggr_distinct = False\<rparr>,
                  \<lparr>aggr_return_type = fun_return_type CountFun,
                   aggr_function = CountFun, aggr_distinct = False\<rparr>]\<rparr>,
       correlated_aggregates =
         [\<lparr>aggr_return_type = fun_return_type CountStarFun,
           aggr_function = CountStarFun, aggr_distinct = False\<rparr>,
          \<lparr>aggr_return_type = fun_return_type CountFun,
           aggr_function = CountFun, aggr_distinct = False\<rparr>],
       correlated_types = delim_types this,
       group_chunk = Initialize (delim_types this),
       payload_chunk = Initialize [fun_return_type CountStarFun, fun_return_type CountFun],
       result_chunk = Initialize [fun_return_type CountStarFun, fun_return_type CountFun]\<rparr>
    else
      \<lparr>correlated_counts = None, correlated_aggregates = [], correlated_types = [],
       group_chunk = empty_DataChunk, payload_chunk = empty_DataChunk,
       result_chunk = empty_DataChunk\<rparr>)"
  by (simp add: GetGlobalState_def JoinHashTable_new_def add_correlated_aggregate_def Let_def)

lemma example_projecting_join_constructed:
  "PhysicalHashJoin_new NDEBUG [0, 0, 0] [0] [0, 0]
     [\<lparr>left = \<lparr>return_type = 0, expr = ()\<rparr>, right = \<lparr>return_type = 0, expr = ()\<rparr>\<rparr>]
     LEFT [] [1, 0]
   = Inr example_projecting_join"
  by (simp add: PhysicalHashJoin_new_def example_projecting_join_def MapTypes_def Let_def)


lemma fold_reference_nth:
  "n \<le> length d \<Longrightarrow>
   fold (\<lambda>i d. d[i := f i]) [0..<n] d = map f [0..<n] @ drop n d"
proof (induction n)
  case 0
  then show ?case by simp
next
  case (Suc n)
  then have n: "n < length d" by simp
  have "fold (\<lambda>i d. d[i := f i]) [0..<Suc n] d = (map f [0..<n] @ drop n d)[n := f n]"
    using Suc by simp
  also have "\<dots> = map f [0..<n] @ (drop n d)[0 := f n]"
    by (simp add: list_update_append)
  also have "(drop n d)[0 := f n] = f n # drop (Suc n) d"
    using n by (simp add: Cons_nth_drop_Suc[symmetric])
  finally show ?case by simp
qed

lemma reference_columns_fold:
  "list_all (\<lambda>i. i < length (data bc) \<and> rpm ! i < length (data input)) idxs \<Longrightarrow>
   reference_columns input rpm bc idxs =
     Inr (bc\<lparr>data := fold (\<lambda>i d. d[i := data input ! (rpm ! i)]) idxs (data bc)\<rparr>)"
proof (induction idxs arbitrary: bc)
  case Nil
  then show ?case by simp
next
  case (Cons i idxs)
  then show ?case
    by (simp add: reference_column_def list_all_iff)
qed

lemma reference_columns_all:
  assumes "length rpm = length (data bc)"
    and "list_all (\<lambda>j. j < length (data input)) rpm"
  shows "reference_columns input rpm bc [0..<length rpm] =
           Inr (bc\<lparr>data := map (\<lambda>j. data input ! j) rpm\<rparr>)"
proof -
  have "list_all (\<lambda>i. i < length (data bc) \<and> rpm ! i < length (data input)) [0..<length rpm]"
    using assms by (auto simp: list_all_iff)
  then have "reference_columns input rpm bc [0..<length rpm] =
     Inr (bc\<lparr>data := fold (\<lambda>i d. d[i := data input ! (rpm ! i)]) [0..<length rpm] (data bc)\<rparr>)"
    by (rule reference_columns_fold)
  moreover have "fold (\<lambda>i d. d[i := data input ! (rpm ! i)]) [0..<length rpm] (data bc)
                 = map (\<lambda>i. data input ! (rpm ! i)) [0..<length rpm]"
    using fold_reference_nth[of "length rpm" "data bc" "\<lambda>i. data input ! (rpm ! i)"] assms(1)
    by simp
  moreover have "map (\<lambda>i. data input ! (rpm ! i)) [0..<length rpm] = map (\<lambda>j. data input ! j) rpm"
  proof -
    have "map (\<lambda>i. data input ! (rpm ! i)) [0..<length rpm]
            = map (\<lambda>j. data input ! j) (map (\<lambda>i. rpm ! i) [0..<length rpm])"
      by (simp add: comp_def)
    then show ?thesis
      by (simp only: map_nth)
  qed
  ultimately show ?thesis by simp
qed

lemma ProbeHashTable_resume:
  assumes "scan_structure st = Some ss" and "0 < size_chunk (child_chunk st)"
    and "Next X ss (join_keys st) (child_chunk st) = (slice, ss')"
  shows "ProbeHashTable X sink chunk st =
           (if 0 < size_chunk slice then (slice, st\<lparr>scan_structure := Some ss'\<rparr>)
            else probe_loop X sink slice (st\<lparr>scan_structure := None\<rparr>))"
  using assms by (simp add: ProbeHashTable_def Let_def)

lemma example_after_first_call_large:
  "example_after_first_call (rows_chunk 64 v # slices) =
     (example_state LEFT [])
       \<lparr>child_chunk := rows_chunk 1 9, child_calls := 1, join_keys := rows_chunk 1 9,
        scan_structure := Some slices\<rparr>"
  by (simp add: example_after_first_call_def example_defs)

lemma child_GetChunk_Nil:
  "child_state st = [] \<Longrightarrow>
   child_state (child_GetChunk st) = [] \<and> size_chunk (child_chunk (child_GetChunk st)) = 0"
  by (simp add: child_GetChunk_def)

lemma child_GetChunk_Cons:
  "child_state st = c # cs \<Longrightarrow>
   child_state (child_GetChunk st) = cs \<and> child_chunk (child_GetChunk st) = c"
  by (simp add: child_GetChunk_def)

lemma probe_loop_scan:
  "scan_structure (snd (probe_loop X sink chunk st)) = scan_structure st \<or>
   (\<exists>c\<in>set (child_state st).
      scan_structure (snd (probe_loop X sink chunk st)) = Some (probed_structure X sink st c))"
proof (induction X sink chunk st rule: probe_loop.induct)
  case (1 X sink chunk st)
  show ?case
  proof (cases "child_state st")
    case Nil
    then show ?thesis
      using child_GetChunk_Nil[of st] by (subst probe_loop.simps) (simp add: Let_def)
  next
    case (Cons c cs)
    let ?st1 = "child_GetChunk st"
    let ?keys = "Execute X (probe_executor st) c"
    let ?r = "Next X (Probe X (hash_table sink) ?keys) ?keys c"
    let ?st2 = "?st1\<lparr>join_keys := ?keys, scan_structure := Some (snd ?r)\<rparr>"
    have fetched: "child_state ?st1 = cs" "child_chunk ?st1 = c"
      using child_GetChunk_Cons[OF Cons] by simp_all
    show ?thesis
    proof (cases "size_chunk c \<noteq> 0 \<and> ht_count (hash_table sink) \<noteq> 0")
      case False
      then show ?thesis
        using fetched by (subst probe_loop.simps) (auto simp: Let_def)
    next
      case True
      have fresh: "Some (snd ?r) = Some (probed_structure X sink st c)"
        by (simp add: probed_structure_def)
      show ?thesis
      proof (cases "size_chunk (fst ?r) = 0")
        case False
        then have "scan_structure (snd (probe_loop X sink chunk st)) = Some (snd ?r)"
          using True fetched by (subst probe_loop.simps) (simp add: Let_def)
        then show ?thesis
          using fresh Cons by simp
      next
        case empty: True
        have eq: "probe_loop X sink chunk st = probe_loop X sink (fst ?r) ?st2"
          using True fetched empty by (subst probe_loop.simps) (simp add: Let_def)
        have "scan_structure (snd (probe_loop X sink (fst ?r) ?st2)) = scan_structure ?st2 \<or>
              (\<exists>c\<in>set (child_state ?st2).
                 scan_structure (snd (probe_loop X sink (fst ?r) ?st2))
                   = Some (probed_structure X sink ?st2 c))"
          using "1.IH"[OF refl, of "?st1\<lparr>join_keys := ?keys\<rparr>" "Probe X (hash_table sink) ?keys" ?r ?st2]
            True fetched empty by simp
        moreover have "probed_structure X sink ?st2 c' = probed_structure X sink st c'" for c'
          by (simp add: probed_structure_def)
        ultimately show ?thesis
          unfolding eq using fresh Cons fetched by auto
      qed
    qed
  qed
qed

lemma probe_loop_exhausted:
  "child_state st = [] \<Longrightarrow>
   probe_loop X sink chunk st = (chunk, child_GetChunk st)"
  using child_GetChunk_Nil[of st] by (subst probe_loop.simps) (simp add: Let_def)

lemma ProbeHashTable_done:
  assumes "probe_done X st" and "size_chunk chunk = 0"
  shows "size_chunk (fst (ProbeHashTable X sink chunk st)) = 0 \<and>
         child_state (snd (ProbeHashTable X sink chunk st)) = [] \<and>
         size_chunk (child_chunk (snd (ProbeHashTable X sink chunk st))) = 0"
proof -
  have nil: "child_state st = []"
    using assms(1) by (simp add: probe_done_def)
  have loop: "size_chunk (fst (probe_loop X sink c s)) = 0 \<and>
              child_state (snd (probe_loop X sink c s)) = [] \<and>
              size_chunk (child_chunk (snd (probe_loop X sink c s))) = 0"
    if "child_state s = []" "size_chunk c = 0" for c s
    using that child_GetChunk_Nil[of s] by (simp add: probe_loop_exhausted)
  show ?thesis
  proof (cases "0 < size_chunk (child_chunk st) \<and> scan_structure st \<noteq> None")
    case False
    then have "ProbeHashTable X sink chunk st = probe_loop X sink chunk st"
      by (auto simp: ProbeHashTable_def)
    then show ?thesis
      using loop[OF nil assms(2)] by simp
  next
    case True
    then obtain ss where ss: "scan_structure st = Some ss"
      by auto
    let ?r = "Next X ss (join_keys st) (child_chunk st)"
    have empty: "size_chunk (fst ?r) = 0"
      using assms(1) True ss by (simp add: probe_done_def)
    have "ProbeHashTable X sink chunk st = probe_loop X sink (fst ?r) (st\<lparr>scan_structure := None\<rparr>)"
      using ProbeHashTable_resume[OF ss, of X "fst ?r" "snd ?r" sink chunk] True empty by simp
    then show ?thesis
      using loop[of "st\<lparr>scan_structure := None\<rparr>" "fst ?r"] nil empty by simp
  qed
qed

lemma probe_done_after:
  assumes "child_state st = []" and "size_chunk (child_chunk st) = 0"
  shows "probe_done X st"
  using assms by (simp add: probe_done_def split: option.splits)

lemma GetChunk_done:
  assumes pd: "probe_done X st"
    and run: "ht_count (hash_table sink) \<noteq> 0 \<or>
              (ht_join_type (hash_table sink) \<noteq> INNER \<and> ht_join_type (hash_table sink) \<noteq> SEMI)"
  shows "GetChunk STANDARD_VECTOR_SIZE X this sink chunk st =
     (if 128 \<le> STANDARD_VECTOR_SIZE \<and> 0 < size_chunk (cached_chunk st)
      then (cached_chunk st,
            (snd (ProbeHashTable X sink (Reset chunk) st))\<lparr>cached_chunk := Reset (cached_chunk st)\<rparr>,
            sink)
      else if join_type this = OUTER
      then (fst (ScanFullOuter X (hash_table sink) (ht_scan_state sink)),
            snd (ProbeHashTable X sink (Reset chunk) st),
            sink\<lparr>ht_scan_state := snd (ScanFullOuter X (hash_table sink) (ht_scan_state sink))\<rparr>)
      else (fst (ProbeHashTable X sink (Reset chunk) st),
            snd (ProbeHashTable X sink (Reset chunk) st), sink))"
proof -
  have empty: "size_chunk (fst (ProbeHashTable X sink (Reset chunk) st)) = 0"
    using ProbeHashTable_done[OF pd, of "Reset chunk" sink] by simp
  have "GetChunk STANDARD_VECTOR_SIZE X this sink chunk st =
        GetChunkLoop (128 \<le> STANDARD_VECTOR_SIZE) 64 (STANDARD_VECTOR_SIZE - 64) X this sink
          (Reset chunk) st"
    using run by (auto simp: GetChunk_def GetChunkInternal_def)
  then show ?thesis
    using empty by (subst (asm) GetChunkLoop_unfold) (simp add: Let_def)
qed

lemma GetChunk_shortcut:
  assumes "ht_count (hash_table sink) = 0"
    and "ht_join_type (hash_table sink) = INNER \<or> ht_join_type (hash_table sink) = SEMI"
  shows "GetChunk STANDARD_VECTOR_SIZE X this sink chunk st = (Reset chunk, st, sink)"
  using assms by (auto simp: GetChunk_def GetChunkInternal_def)

lemma GetChunk_done_state:
  assumes pd: "probe_done X st"
    and inv: "0 < size_chunk (cached_chunk st) \<longrightarrow>
              128 \<le> STANDARD_VECTOR_SIZE \<and>
              (ht_count (hash_table sink) \<noteq> 0 \<or>
               (ht_join_type (hash_table sink) \<noteq> INNER \<and> ht_join_type (hash_table sink) \<noteq> SEMI))"
  shows "probe_done X (fst (snd (GetChunk STANDARD_VECTOR_SIZE X this sink chunk st))) \<and>
         size_chunk (cached_chunk (fst (snd (GetChunk STANDARD_VECTOR_SIZE X this sink chunk st)))) = 0 \<and>
         hash_table (snd (snd (GetChunk STANDARD_VECTOR_SIZE X this sink chunk st))) = hash_table sink"
proof (cases "ht_count (hash_table sink) \<noteq> 0 \<or>
              (ht_join_type (hash_table sink) \<noteq> INNER \<and> ht_join_type (hash_table sink) \<noteq> SEMI)")
  case True
  let ?st1 = "snd (ProbeHashTable X sink (Reset chunk) st)"
  have "child_state ?st1 = []" "size_chunk (child_chunk ?st1) = 0"
    using ProbeHashTable_done[OF pd, of "Reset chunk" sink] by simp_all
  then have "probe_done X ?st1" "probe_done X (?st1\<lparr>cached_chunk := Reset (cached_chunk st)\<rparr>)"
    by (simp_all add: probe_done_after)
  then show ?thesis
    using inv by (auto simp: GetChunk_done[OF pd True])
next
  case False
  then have "GetChunk STANDARD_VECTOR_SIZE X this sink chunk st = (Reset chunk, st, sink)"
    by (intro GetChunk_shortcut) auto
  then show ?thesis
    using pd inv False by auto
qed

lemma other_calls:
  assumes "probe_done X st" and "size_chunk (cached_chunk st) = 0"
    and "join_type this \<noteq> OUTER"
  shows "list_all (\<lambda>c. size_chunk c = 0) (fst (GetChunk_calls n STANDARD_VECTOR_SIZE X this sink chunk st))"
  using assms
proof (induction n arbitrary: chunk st)
  case 0
  then show ?case by simp
next
  case (Suc n)
  let ?r = "GetChunk STANDARD_VECTOR_SIZE X this sink chunk st"
  have after: "probe_done X (fst (snd ?r))" "size_chunk (cached_chunk (fst (snd ?r))) = 0"
    using GetChunk_done_state[OF Suc.prems(1), where sink = sink and STANDARD_VECTOR_SIZE = STANDARD_VECTOR_SIZE and this = this and chunk = chunk] Suc.prems(2)
    by simp_all
  have r: "size_chunk (fst ?r) = 0 \<and> snd (snd ?r) = sink"
  proof (cases "ht_count (hash_table sink) \<noteq> 0 \<or>
              (ht_join_type (hash_table sink) \<noteq> INNER \<and> ht_join_type (hash_table sink) \<noteq> SEMI)")
    case True
    show ?thesis
      using Suc.prems ProbeHashTable_done[OF Suc.prems(1), of "Reset chunk" sink]
      by (simp add: GetChunk_done[OF Suc.prems(1) True])
  next
    case False
    then have "?r = (Reset chunk, st, sink)"
      by (intro GetChunk_shortcut) auto
    then show ?thesis by simp
  qed
  have "list_all (\<lambda>c. size_chunk c = 0)
          (fst (GetChunk_calls n STANDARD_VECTOR_SIZE X this sink (fst ?r) (fst (snd ?r))))"
    using after Suc.prems(3) by (rule Suc.IH)
  then show ?case
    using r by (simp add: Let_def)
qed

lemma outer_scan_exhausted:
  assumes contract: "\<And>fs. size_chunk (fst (ScanFullOuter X ht fs)) = 0 \<Longrightarrow>
                      size_chunk (fst (ScanFullOuter X ht (snd (ScanFullOuter X ht fs)))) = 0"
    and "size_chunk (fst (ScanFullOuter X ht cursor)) = 0"
  shows "list_all (\<lambda>c. size_chunk c = 0) (outer_scan n X ht cursor)"
  using assms(2)
proof (induction n arbitrary: cursor)
  case 0
  then show ?case by simp
next
  case (Suc n)
  then show ?case
    using contract[of cursor] by simp
qed

lemma GetChunkInternal_is_with:
  "GetChunkInternal STANDARD_VECTOR_SIZE X this sink chunk st =
   GetChunkInternal_with (128 \<le> STANDARD_VECTOR_SIZE) 64 (STANDARD_VECTOR_SIZE - 64)
     X this sink chunk st"
  by (simp add: GetChunkInternal_def GetChunkInternal_with_def)

subsection \<open>Rows\<close>

lemma rows_of_empty: "size_chunk c = 0 \<Longrightarrow> rows_of c = []"
  by (simp add: rows_of_def size_chunk_def)

lemma chunk_wf_Reset: "chunk_wf k c \<Longrightarrow> chunk_wf k (Reset c)"
  by (simp add: chunk_wf_def Reset_def list_all_iff)

lemma chunk_wf_Append:
  "chunk_wf k a \<Longrightarrow> chunk_wf k b \<Longrightarrow> chunk_wf k (Append a b)"
  by (auto simp: chunk_wf_def Append_def list_all_iff set_zip)

lemma size_Append:
  "size_chunk (Append a b) = size_chunk a + size_chunk b"
  by (simp add: Append_def size_chunk_def)

lemma rows_of_Append:
  assumes "chunk_wf k a" and "chunk_wf k b"
  shows "rows_of (Append a b) = rows_of a @ rows_of b"
proof (cases "size_chunk b = 0")
  case True
  then show ?thesis
    by (simp add: Append_def rows_of_empty)
next
  case False
  have la: "length (data a) = k" and lb: "length (data b) = k"
    using assms by (simp_all add: chunk_wf_def)
  have ca: "length (data a ! x) = cardinality a" if "x < k" for x
    using assms(1) that by (simp add: chunk_wf_def list_all_length)
  have cb: "length (data b ! x) = cardinality b" if "x < k" for x
    using assms(2) that by (simp add: chunk_wf_def list_all_length)
  have row: "map (\<lambda>col. col ! i) (map2 (@) (data a) (data b)) =
             (if i < cardinality a then map (\<lambda>col. col ! i) (data a)
              else map (\<lambda>col. col ! (i - cardinality a)) (data b))" for i
    by (rule nth_equalityI) (auto simp: la lb ca cb nth_append)
  have app: "Append a b = \<lparr>data = map2 (@) (data a) (data b),
                            cardinality = cardinality a + cardinality b\<rparr>"
    using False by (simp add: Append_def)
  have "rows_of (Append a b) =
        map (\<lambda>i. map (\<lambda>col. col ! i) (map2 (@) (data a) (data b)))
          [0..<cardinality a + cardinality b]"
    unfolding app rows_of_def by (simp only: DataChunk.select_convs)
  also have "\<dots> =
        map (\<lambda>i. if i < cardinality a then map (\<lambda>col. col ! i) (data a)
                  else map (\<lambda>col. col ! (i - cardinality a)) (data b))
          [0..<cardinality a + cardinality b]"
    by (simp only: row)
  finally have rows: "rows_of (Append a b) =
        map (\<lambda>i. if i < cardinality a then map (\<lambda>col. col ! i) (data a)
                  else map (\<lambda>col. col ! (i - cardinality a)) (data b))
          ([0..<cardinality a] @ [cardinality a..<cardinality a + cardinality b])"
    using upt_add_eq_append[of 0 "cardinality a" "cardinality b"] by simp
  have left: "map (\<lambda>i. if i < cardinality a then map (\<lambda>col. col ! i) (data a)
                  else map (\<lambda>col. col ! (i - cardinality a)) (data b)) [0..<cardinality a]
              = map (\<lambda>i. map (\<lambda>col. col ! i) (data a)) [0..<cardinality a]"
    by (rule nth_equalityI) simp_all
  have right: "map (\<lambda>i. if i < cardinality a then map (\<lambda>col. col ! i) (data a)
                  else map (\<lambda>col. col ! (i - cardinality a)) (data b))
                 [cardinality a..<cardinality a + cardinality b]
               = map (\<lambda>i. map (\<lambda>col. col ! i) (data b)) [0..<cardinality b]"
    by (rule nth_equalityI) simp_all
  show ?thesis
    unfolding rows map_append left right by (simp add: rows_of_def)
qed

lemma rows_mset_Cons: "rows_mset (c # outs) = mset (rows_of c) + rows_mset outs"
  by (simp add: rows_mset_def)

lemma rows_mset_Nil: "rows_mset [] = {#}"
  by (simp add: rows_mset_def)

subsection \<open>What ProbeHashTable does not depend on\<close>

lemma probe_loop_chunk:
  "snd (probe_loop X sink c st) = snd (probe_loop X sink c' st) \<and>
   (fst (probe_loop X sink c st) = fst (probe_loop X sink c' st) \<or>
    fst (probe_loop X sink c st) = c \<and> fst (probe_loop X sink c' st) = c')"
proof -
  have "probe_loop X sink c st =
          (if size_chunk (child_chunk (child_GetChunk st)) = 0 then (c, child_GetChunk st)
           else probe_loop X sink c' st)" for c c'
    by (subst (1 2) probe_loop.simps) (simp add: Let_def)
  from this[of c c'] this[of c' c'] show ?thesis
    by (simp split: if_splits)
qed

lemma ProbeHashTable_chunk:
  "snd (ProbeHashTable X sink c st) = snd (ProbeHashTable X sink c' st) \<and>
   (fst (ProbeHashTable X sink c st) = fst (ProbeHashTable X sink c' st) \<or>
    fst (ProbeHashTable X sink c st) = c \<and> fst (ProbeHashTable X sink c' st) = c')"
  using probe_loop_chunk[of X sink c st c']
  by (simp add: ProbeHashTable_def Let_def split: option.splits)

lemma size_empty_DataChunk [simp]: "size_chunk empty_DataChunk = 0"
  by (simp add: empty_DataChunk_def size_chunk_def)

lemma ProbeHashTable_slice:
  assumes "size_chunk c = 0"
  shows "snd (ProbeHashTable X sink c st) = probe_next X sink st"
    and "size_chunk (fst (ProbeHashTable X sink c st)) = 0 \<longleftrightarrow> size_chunk (probe_slice X sink st) = 0"
    and "size_chunk (probe_slice X sink st) \<noteq> 0 \<Longrightarrow>
         fst (ProbeHashTable X sink c st) = probe_slice X sink st"
  using ProbeHashTable_chunk[of X sink c st empty_DataChunk] assms
  by (auto simp: probe_slice_def probe_next_def)

lemma same_probe_refl [simp]: "same_probe st st"
  by (simp add: same_probe_def)

lemma same_probe_cached [simp]:
  "same_probe (st\<lparr>cached_chunk := x\<rparr>) st' = same_probe st st'"
  "same_probe st (st'\<lparr>cached_chunk := x\<rparr>) = same_probe st st'"
  by (simp_all add: same_probe_def)

lemma same_probe_child_GetChunk:
  "same_probe st st' \<Longrightarrow> same_probe (child_GetChunk st) (child_GetChunk st')"
  by (auto simp: same_probe_def child_GetChunk_def split: list.splits)

lemma probe_loop_same_probe:
  "same_probe st st' \<Longrightarrow>
   fst (probe_loop X sink c st) = fst (probe_loop X sink c st') \<and>
   same_probe (snd (probe_loop X sink c st)) (snd (probe_loop X sink c st'))"
proof (induction X sink c st arbitrary: st' rule: probe_loop.induct)
  case (1 X sink c st)
  let ?st1 = "child_GetChunk st"
  let ?keys = "Execute X (probe_executor ?st1) (child_chunk ?st1)"
  let ?r = "Next X (Probe X (hash_table sink) ?keys) ?keys (child_chunk ?st1)"
  let ?st2 = "?st1\<lparr>join_keys := ?keys, scan_structure := Some (snd ?r)\<rparr>"
  let ?st1' = "child_GetChunk st'"
  let ?st2' = "?st1'\<lparr>join_keys := ?keys, scan_structure := Some (snd ?r)\<rparr>"
  have s1: "same_probe ?st1 ?st1'"
    using "1.prems" by (rule same_probe_child_GetChunk)
  then have eqs: "child_chunk ?st1' = child_chunk ?st1" "probe_executor st' = probe_executor st"
    by (simp_all add: same_probe_def)
  have s2: "same_probe ?st2 ?st2'"
    using s1 by (simp add: same_probe_def)
  show ?case
  proof (cases "size_chunk (child_chunk ?st1) \<noteq> 0 \<and> ht_count (hash_table sink) \<noteq> 0 \<and>
                size_chunk (fst ?r) = 0")
    case True
    have l: "probe_loop X sink c st = probe_loop X sink (fst ?r) ?st2"
      using True by (subst probe_loop.simps) (simp add: Let_def)
    have r: "probe_loop X sink c st' = probe_loop X sink (fst ?r) ?st2'"
      using True by (subst probe_loop.simps) (simp add: Let_def eqs)
    have "fst (probe_loop X sink (fst ?r) ?st2) = fst (probe_loop X sink (fst ?r) ?st2') \<and>
          same_probe (snd (probe_loop X sink (fst ?r) ?st2)) (snd (probe_loop X sink (fst ?r) ?st2'))"
      using "1.IH"[OF refl, of "?st1\<lparr>join_keys := ?keys\<rparr>" "Probe X (hash_table sink) ?keys" ?r ?st2 ?st2']
        True s2 by simp
    then show ?thesis
      by (simp only: l r)
  next
    case False
    have l: "probe_loop X sink c st =
         (if size_chunk (child_chunk ?st1) = 0 then (c, ?st1)
          else if ht_count (hash_table sink) = 0
          then (ConstructEmptyJoinResult X (ht_join_type (hash_table sink))
                  (has_null (hash_table sink)) (child_chunk ?st1), ?st1)
          else (fst ?r, ?st2))"
      using False by (subst probe_loop.simps) (auto simp: Let_def)
    have r: "probe_loop X sink c st' =
         (if size_chunk (child_chunk ?st1) = 0 then (c, ?st1')
          else if ht_count (hash_table sink) = 0
          then (ConstructEmptyJoinResult X (ht_join_type (hash_table sink))
                  (has_null (hash_table sink)) (child_chunk ?st1), ?st1')
          else (fst ?r, ?st2'))"
      using False by (subst probe_loop.simps) (auto simp: Let_def eqs)
    show ?thesis
      unfolding l r using s1 s2 by simp
  qed
qed

lemma ProbeHashTable_same_probe:
  assumes "same_probe st st'"
  shows "fst (ProbeHashTable X sink c st) = fst (ProbeHashTable X sink c st') \<and>
         same_probe (snd (ProbeHashTable X sink c st)) (snd (ProbeHashTable X sink c st'))"
proof -
  have eqs: "child_chunk st' = child_chunk st" "scan_structure st' = scan_structure st"
            "join_keys st' = join_keys st"
    using assms by (simp_all add: same_probe_def)
  have none: "same_probe (st\<lparr>scan_structure := None\<rparr>) (st'\<lparr>scan_structure := None\<rparr>)"
    using assms by (simp add: same_probe_def)
  have some: "same_probe (st\<lparr>scan_structure := Some s\<rparr>) (st'\<lparr>scan_structure := Some s\<rparr>)" for s
    using assms by (simp add: same_probe_def)
  show ?thesis
    using probe_loop_same_probe[OF assms, of X sink c]
      probe_loop_same_probe[OF none, of X sink] some
    by (simp add: ProbeHashTable_def Let_def eqs split: option.splits)
qed

subsection \<open>The slices and the stream\<close>

lemma probe_loop_wf:
  assumes next_wf: "\<And>ss keys c. chunk_wf k (fst (Next X ss keys c))"
    and empty_wf: "\<And>jt hn c. chunk_wf k (ConstructEmptyJoinResult X jt hn c)"
  shows "fst (probe_loop X sink c st) = c \<or> chunk_wf k (fst (probe_loop X sink c st))"
  using assms
proof (induction X sink c st rule: probe_loop.induct)
  case (1 X sink c st)
  let ?st1 = "child_GetChunk st"
  let ?keys = "Execute X (probe_executor ?st1) (child_chunk ?st1)"
  let ?r = "Next X (Probe X (hash_table sink) ?keys) ?keys (child_chunk ?st1)"
  let ?st2 = "?st1\<lparr>join_keys := ?keys, scan_structure := Some (snd ?r)\<rparr>"
  note wf = "1.prems"
  show ?case
  proof (cases "size_chunk (child_chunk ?st1) \<noteq> 0 \<and> ht_count (hash_table sink) \<noteq> 0 \<and>
                size_chunk (fst ?r) = 0")
    case True
    have l: "probe_loop X sink c st = probe_loop X sink (fst ?r) ?st2"
      using True by (subst probe_loop.simps) (simp add: Let_def)
    have "fst (probe_loop X sink (fst ?r) ?st2) = fst ?r \<or>
          chunk_wf k (fst (probe_loop X sink (fst ?r) ?st2))"
      using "1.IH"[OF refl, of "?st1\<lparr>join_keys := ?keys\<rparr>" "Probe X (hash_table sink) ?keys" ?r ?st2]
        True wf by simp
    then show ?thesis
      unfolding l using wf(1)[of "Probe X (hash_table sink) ?keys" ?keys "child_chunk ?st1"] by auto
  next
    case False
    have l: "probe_loop X sink c st =
         (if size_chunk (child_chunk ?st1) = 0 then (c, ?st1)
          else if ht_count (hash_table sink) = 0
          then (ConstructEmptyJoinResult X (ht_join_type (hash_table sink))
                  (has_null (hash_table sink)) (child_chunk ?st1), ?st1)
          else (fst ?r, ?st2))"
      using False by (subst probe_loop.simps) (auto simp: Let_def)
    show ?thesis
      unfolding l using wf by simp
  qed
qed

lemma probe_slice_wf:
  assumes next_wf: "\<And>ss keys c. chunk_wf k (fst (Next X ss keys c))"
    and empty_wf: "\<And>jt hn c. chunk_wf k (ConstructEmptyJoinResult X jt hn c)"
    and "size_chunk (probe_slice X sink st) \<noteq> 0"
  shows "chunk_wf k (probe_slice X sink st)"
proof -
  have loop: "fst (probe_loop X sink c s) = c \<or> chunk_wf k (fst (probe_loop X sink c s))" for c s
    using next_wf empty_wf by (rule probe_loop_wf)
  have "fst (ProbeHashTable X sink empty_DataChunk st) = empty_DataChunk \<or>
        chunk_wf k (fst (ProbeHashTable X sink empty_DataChunk st))"
  proof (cases "0 < size_chunk (child_chunk st) \<and> scan_structure st \<noteq> None")
    case False
    then have "ProbeHashTable X sink empty_DataChunk st = probe_loop X sink empty_DataChunk st"
      by (auto simp: ProbeHashTable_def)
    then show ?thesis
      using loop[of empty_DataChunk st] by simp
  next
    case True
    then obtain ss where ss: "scan_structure st = Some ss"
      by auto
    let ?r = "Next X ss (join_keys st) (child_chunk st)"
    have eq: "ProbeHashTable X sink empty_DataChunk st =
            (if 0 < size_chunk (fst ?r) then (fst ?r, st\<lparr>scan_structure := Some (snd ?r)\<rparr>)
             else probe_loop X sink (fst ?r) (st\<lparr>scan_structure := None\<rparr>))"
      using ProbeHashTable_resume[OF ss, of X "fst ?r" "snd ?r" sink empty_DataChunk] True by simp
    show ?thesis
      unfolding eq
      using loop[of "fst ?r" "st\<lparr>scan_structure := None\<rparr>"] next_wf[of ss "join_keys st" "child_chunk st"]
      by auto
  qed
  then show ?thesis
    using assms(3) by (auto simp: probe_slice_def)
qed

lemma probe_loop_stream:
  assumes "list_all (\<lambda>c. 0 < size_chunk c) (child_state st)"
    and "ht_count (hash_table sink) \<noteq> 0 \<or>
         (\<forall>c. 0 < size_chunk c \<longrightarrow>
              0 < size_chunk (ConstructEmptyJoinResult X (ht_join_type (hash_table sink))
                                (has_null (hash_table sink)) c))"
  shows "list_all (\<lambda>c. 0 < size_chunk c) (child_state (snd (probe_loop X sink c st))) \<and>
         (size_chunk (fst (probe_loop X sink c st)) = 0 \<longrightarrow>
            child_state (snd (probe_loop X sink c st)) = [] \<and>
            size_chunk (child_chunk (snd (probe_loop X sink c st))) = 0)"
  using assms
proof (induction X sink c st rule: probe_loop.induct)
  case (1 X sink c st)
  show ?case
  proof (cases "child_state st")
    case Nil
    then show ?thesis
      using child_GetChunk_Nil[of st] by (simp add: probe_loop_exhausted)
  next
    case (Cons b bs)
    let ?st1 = "child_GetChunk st"
    let ?keys = "Execute X (probe_executor st) b"
    let ?r = "Next X (Probe X (hash_table sink) ?keys) ?keys b"
    let ?st2 = "?st1\<lparr>join_keys := ?keys, scan_structure := Some (snd ?r)\<rparr>"
    have fetched: "child_state ?st1 = bs" "child_chunk ?st1 = b"
      using child_GetChunk_Cons[OF Cons] by simp_all
    have b: "0 < size_chunk b" and bs: "list_all (\<lambda>c. 0 < size_chunk c) bs"
      using "1.prems"(1) Cons by simp_all
    show ?thesis
    proof (cases "ht_count (hash_table sink) \<noteq> 0 \<and> size_chunk (fst ?r) = 0")
      case True
      have l: "probe_loop X sink c st = probe_loop X sink (fst ?r) ?st2"
        using True fetched b by (subst probe_loop.simps) (simp add: Let_def)
      show ?thesis
        unfolding l
        using "1.IH"[OF refl, of "?st1\<lparr>join_keys := ?keys\<rparr>" "Probe X (hash_table sink) ?keys" ?r ?st2]
          True fetched b bs "1.prems"(2)
        by simp
    next
      case False
      have l: "probe_loop X sink c st =
           (if ht_count (hash_table sink) = 0
            then (ConstructEmptyJoinResult X (ht_join_type (hash_table sink))
                    (has_null (hash_table sink)) b, ?st1)
            else (fst ?r, ?st2))"
        using False fetched b by (subst probe_loop.simps) (auto simp: Let_def)
      show ?thesis
        unfolding l using False fetched b bs "1.prems"(2) by auto
    qed
  qed
qed

lemma probe_next_stream:
  assumes "list_all (\<lambda>c. 0 < size_chunk c) (child_state st)"
    and "ht_count (hash_table sink) \<noteq> 0 \<or>
         (\<forall>c. 0 < size_chunk c \<longrightarrow>
              0 < size_chunk (ConstructEmptyJoinResult X (ht_join_type (hash_table sink))
                                (has_null (hash_table sink)) c))"
  shows "list_all (\<lambda>c. 0 < size_chunk c) (child_state (probe_next X sink st)) \<and>
         (size_chunk (probe_slice X sink st) = 0 \<longrightarrow>
            child_state (probe_next X sink st) = [] \<and>
            size_chunk (child_chunk (probe_next X sink st)) = 0)"
proof (cases "0 < size_chunk (child_chunk st) \<and> scan_structure st \<noteq> None")
  case False
  then have "ProbeHashTable X sink empty_DataChunk st = probe_loop X sink empty_DataChunk st"
    by (auto simp: ProbeHashTable_def)
  then show ?thesis
    using probe_loop_stream[OF assms, of empty_DataChunk]
    by (simp add: probe_slice_def probe_next_def)
next
  case True
  then obtain ss where ss: "scan_structure st = Some ss"
    by auto
  let ?r = "Next X ss (join_keys st) (child_chunk st)"
  have eq: "ProbeHashTable X sink empty_DataChunk st =
          (if 0 < size_chunk (fst ?r) then (fst ?r, st\<lparr>scan_structure := Some (snd ?r)\<rparr>)
           else probe_loop X sink (fst ?r) (st\<lparr>scan_structure := None\<rparr>))"
    using ProbeHashTable_resume[OF ss, of X "fst ?r" "snd ?r" sink empty_DataChunk] True by simp
  have "list_all (\<lambda>c. 0 < size_chunk c) (child_state (st\<lparr>scan_structure := None\<rparr>))"
    using assms(1) by simp
  from probe_loop_stream[OF this assms(2), of "fst ?r"] show ?thesis
    unfolding probe_slice_def probe_next_def eq using assms(1) by auto
qed

lemma probe_dead:
  assumes "child_state st = []" and "size_chunk (child_chunk st) = 0"
  shows "size_chunk (probe_slice X sink st) = 0 \<and> child_state (probe_next X sink st) = [] \<and>
         size_chunk (child_chunk (probe_next X sink st)) = 0"
  using ProbeHashTable_done[OF probe_done_after[OF assms, where X = X], where chunk = empty_DataChunk and sink = sink]
  by (simp add: probe_slice_def probe_next_def)

lemma probe_next_cached: "cached_chunk (probe_next X sink st) = cached_chunk st"
  by (simp add: probe_next_def)

lemma probe_same_probe:
  assumes "same_probe st st'"
  shows "probe_slice X sink st = probe_slice X sink st'"
    and "same_probe (probe_next X sink st) (probe_next X sink st')"
  using ProbeHashTable_same_probe[OF assms, of X sink empty_DataChunk]
  by (simp_all add: probe_slice_def probe_next_def)

lemma probe_sink:
  "hash_table sink = hash_table sink' \<Longrightarrow>
   probe_loop X sink c st = probe_loop X sink' c st"
proof (induction X sink c st rule: probe_loop.induct)
  case (1 X sink c st)
  let ?st1 = "child_GetChunk st"
  let ?keys = "Execute X (probe_executor ?st1) (child_chunk ?st1)"
  let ?r = "Next X (Probe X (hash_table sink) ?keys) ?keys (child_chunk ?st1)"
  let ?st2 = "?st1\<lparr>join_keys := ?keys, scan_structure := Some (snd ?r)\<rparr>"
  show ?case
  proof (cases "size_chunk (child_chunk ?st1) \<noteq> 0 \<and> ht_count (hash_table sink) \<noteq> 0 \<and>
                size_chunk (fst ?r) = 0")
    case True
    have l: "probe_loop X sink c st = probe_loop X sink (fst ?r) ?st2"
      using True by (subst probe_loop.simps) (simp add: Let_def)
    have r: "probe_loop X sink' c st = probe_loop X sink' (fst ?r) ?st2"
      using True "1.prems" by (subst probe_loop.simps) (simp add: Let_def)
    show ?thesis
      unfolding l r
      using "1.IH"[OF refl, of "?st1\<lparr>join_keys := ?keys\<rparr>" "Probe X (hash_table sink) ?keys" ?r ?st2]
        True "1.prems" by simp
  next
    case False
    then show ?thesis
      using "1.prems" by (subst (1 2) probe_loop.simps) (auto simp: Let_def)
  qed
qed

lemma ProbeHashTable_sink:
  assumes "hash_table sink = hash_table sink'"
  shows "ProbeHashTable X sink c st = ProbeHashTable X sink' c st"
  by (auto simp: ProbeHashTable_def Let_def probe_sink[OF assms] split: option.splits)

subsection \<open>One call and the drained stream\<close>

lemma GetChunkLoop_step:
  assumes "size_chunk ch = 0"
  shows "GetChunkLoop caching threshold capacity X this sink ch st =
     (if size_chunk (probe_slice X sink st) = 0
      then if caching \<and> 0 < size_chunk (cached_chunk st)
           then (cached_chunk st,
                 (probe_next X sink st)\<lparr>cached_chunk := Reset (cached_chunk st)\<rparr>, sink)
           else if join_type this = OUTER
           then (fst (ScanFullOuter X (hash_table sink) (ht_scan_state sink)),
                 probe_next X sink st,
                 sink\<lparr>ht_scan_state := snd (ScanFullOuter X (hash_table sink) (ht_scan_state sink))\<rparr>)
           else (fst (ProbeHashTable X sink ch st), probe_next X sink st, sink)
      else if caching \<and> size_chunk (probe_slice X sink st) < threshold
      then if capacity \<le> size_chunk (Append (cached_chunk st) (probe_slice X sink st))
           then (Append (cached_chunk st) (probe_slice X sink st),
                 (probe_next X sink st)
                   \<lparr>cached_chunk := Reset (Append (cached_chunk st) (probe_slice X sink st))\<rparr>,
                 sink)
           else GetChunkLoop caching threshold capacity X this sink (Reset (probe_slice X sink st))
                  ((probe_next X sink st)
                     \<lparr>cached_chunk := Append (cached_chunk st) (probe_slice X sink st)\<rparr>)
      else (probe_slice X sink st, probe_next X sink st, sink))"
proof (cases "size_chunk (probe_slice X sink st) = 0")
  case True
  then have "size_chunk (fst (ProbeHashTable X sink ch st)) = 0"
    by (simp add: ProbeHashTable_slice(2)[OF assms])
  then show ?thesis
    using True ProbeHashTable_slice(1)[OF assms, of X sink st]
    by (subst GetChunkLoop_unfold) (simp add: Let_def)
next
  case False
  then have "fst (ProbeHashTable X sink ch st) = probe_slice X sink st"
    by (simp add: ProbeHashTable_slice(3)[OF assms])
  then show ?thesis
    using False ProbeHashTable_slice(1)[OF assms, of X sink st]
    by (subst GetChunkLoop_unfold) (simp add: Let_def)
qed

lemma drain_uncached_step:
  assumes "ht_count (hash_table sink) \<noteq> 0 \<or>
           (ht_join_type (hash_table sink) \<noteq> INNER \<and> ht_join_type (hash_table sink) \<noteq> SEMI)"
  shows "drain (Suc m) False threshold capacity X this sink c st =
     (if size_chunk (probe_slice X sink st) = 0
      then if join_type this = OUTER
           then if size_chunk (fst (ScanFullOuter X (hash_table sink) (ht_scan_state sink))) = 0
                then Some []
                else map_option ((#) (fst (ScanFullOuter X (hash_table sink) (ht_scan_state sink))))
                       (drain m False threshold capacity X this
                          (sink\<lparr>ht_scan_state :=
                                  snd (ScanFullOuter X (hash_table sink) (ht_scan_state sink))\<rparr>)
                          (fst (ScanFullOuter X (hash_table sink) (ht_scan_state sink)))
                          (probe_next X sink st))
           else Some []
      else map_option ((#) (probe_slice X sink st))
             (drain m False threshold capacity X this sink (probe_slice X sink st)
                (probe_next X sink st)))"
proof -
  have empty: "size_chunk (Reset c) = 0"
    by simp
  have "size_chunk (fst (ProbeHashTable X sink (Reset c) st)) = 0"
    if "size_chunk (probe_slice X sink st) = 0"
    using that by (simp add: ProbeHashTable_slice(2)[OF empty])
  then show ?thesis
    using assms
    by (auto simp: drain.simps GetChunkInternal_with_def GetChunkLoop_step[OF empty] Let_def)
qed

lemma drain_uncached_same_probe:
  assumes "ht_count (hash_table sink) \<noteq> 0 \<or>
           (ht_join_type (hash_table sink) \<noteq> INNER \<and> ht_join_type (hash_table sink) \<noteq> SEMI)"
    and "same_probe st st'"
  shows "drain m False threshold capacity X this sink c st =
         drain m False threshold' capacity' X this sink c' st'"
  using assms
proof (induction m arbitrary: sink c c' st st')
  case 0
  then show ?case by (simp add: drain.simps)
next
  case (Suc m)
  note run = Suc.prems(1)
  have slice: "probe_slice X sink st' = probe_slice X sink st"
    and nxt: "same_probe (probe_next X sink st) (probe_next X sink st')"
    using probe_same_probe[OF Suc.prems(2), of X sink] by simp_all
  let ?r = "ScanFullOuter X (hash_table sink) (ht_scan_state sink)"
  have a: "drain m False threshold capacity X this sink (probe_slice X sink st) (probe_next X sink st)
         = drain m False threshold' capacity' X this sink (probe_slice X sink st) (probe_next X sink st')"
    using run nxt by (rule Suc.IH)
  have b: "drain m False threshold capacity X this (sink\<lparr>ht_scan_state := snd ?r\<rparr>) (fst ?r)
             (probe_next X sink st)
         = drain m False threshold' capacity' X this (sink\<lparr>ht_scan_state := snd ?r\<rparr>) (fst ?r)
             (probe_next X sink st')"
    using run nxt by (intro Suc.IH) simp_all
  show ?case
    unfolding drain_uncached_step[OF run] slice a b ..
qed

lemma drain_uncached_dead:
  assumes "ht_count (hash_table sink) \<noteq> 0 \<or>
           (ht_join_type (hash_table sink) \<noteq> INNER \<and> ht_join_type (hash_table sink) \<noteq> SEMI)"
    and "child_state st = []" "size_chunk (child_chunk st) = 0"
    and "child_state st' = []" "size_chunk (child_chunk st') = 0"
  shows "drain m False threshold capacity X this sink c st =
         drain m False threshold capacity X this sink c' st'"
  using assms
proof (induction m arbitrary: sink c c' st st')
  case 0
  then show ?case by (simp add: drain.simps)
next
  case (Suc m)
  note run = Suc.prems(1)
  note d = probe_dead[OF Suc.prems(2,3), of X sink]
  note d' = probe_dead[OF Suc.prems(4,5), of X sink]
  let ?r = "ScanFullOuter X (hash_table sink) (ht_scan_state sink)"
  have b: "drain m False threshold capacity X this (sink\<lparr>ht_scan_state := snd ?r\<rparr>) (fst ?r)
             (probe_next X sink st)
         = drain m False threshold capacity X this (sink\<lparr>ht_scan_state := snd ?r\<rparr>) (fst ?r)
             (probe_next X sink st')"
    using run d d' by (intro Suc.IH) simp_all
  show ?case
    unfolding drain_uncached_step[OF run] using d d' b by simp
qed

lemma drain_uncached_finished:
  assumes run: "ht_count (hash_table sink) \<noteq> 0 \<or>
           (ht_join_type (hash_table sink) \<noteq> INNER \<and> ht_join_type (hash_table sink) \<noteq> SEMI)"
    and "size_chunk (probe_slice X sink st) = 0"
    and "child_state (probe_next X sink st) = []" "size_chunk (child_chunk (probe_next X sink st)) = 0"
    and "child_state st' = []" "size_chunk (child_chunk st') = 0"
  shows "drain m False threshold capacity X this sink c st =
         drain m False threshold capacity X this sink c' st'"
proof (cases m)
  case 0
  then show ?thesis by (simp add: drain.simps)
next
  case (Suc m')
  note d' = probe_dead[OF assms(5,6), of X sink]
  let ?r = "ScanFullOuter X (hash_table sink) (ht_scan_state sink)"
  have b: "drain m' False threshold capacity X this (sink\<lparr>ht_scan_state := snd ?r\<rparr>) (fst ?r)
             (probe_next X sink st)
         = drain m' False threshold capacity X this (sink\<lparr>ht_scan_state := snd ?r\<rparr>) (fst ?r)
             (probe_next X sink st')"
    using run assms(3,4) d' by (intro drain_uncached_dead) simp_all
  show ?thesis
    unfolding Suc drain_uncached_step[OF run] using assms(2) d' b by simp
qed

lemma drain_more_fuel:
  "drain m caching threshold capacity X this sink c st = Some outs \<Longrightarrow>
   drain (m + d) caching threshold capacity X this sink c st = Some outs"
proof (induction m arbitrary: sink c st outs)
  case 0
  then show ?case by (simp add: drain.simps)
next
  case (Suc m)
  let ?r = "GetChunkInternal_with caching threshold capacity X this sink (Reset c) st"
  show ?case
  proof (cases "size_chunk (fst ?r) = 0")
    case True
    then show ?thesis
      using Suc.prems by (simp add: drain.simps Let_def)
  next
    case False
    then obtain rest where rest: "drain m caching threshold capacity X this (snd (snd ?r)) (fst ?r)
                                     (fst (snd ?r)) = Some rest" and outs: "outs = fst ?r # rest"
      using Suc.prems by (auto simp: drain.simps Let_def)
    have "drain (m + d) caching threshold capacity X this (snd (snd ?r)) (fst ?r) (fst (snd ?r))
            = Some rest"
      using rest by (rule Suc.IH)
    then show ?thesis
      using False outs by (simp add: drain.simps Let_def)
  qed
qed

lemma drain_deterministic:
  assumes "drain m caching threshold capacity X this sink c st = Some outs"
    and "drain m' caching threshold capacity X this sink c st = Some outs'"
  shows "outs = outs'"
proof (cases "m \<le> m'")
  case True
  then show ?thesis
    using drain_more_fuel[OF assms(1), of "m' - m"] assms(2) by simp
next
  case False
  then show ?thesis
    using drain_more_fuel[OF assms(2), of "m - m'"] assms(1) by simp
qed

subsection \<open>A coalescing call against the uncoalesced stream\<close>

lemma coalescing_loop:
  fixes X :: "('t, 'x, 'v, 'h, 'ss, 'fs) collaborators"
  assumes run: "ht_count (hash_table sink) \<noteq> 0 \<or>
           (ht_join_type (hash_table sink) \<noteq> INNER \<and> ht_join_type (hash_table sink) \<noteq> SEMI)"
    and next_wf: "\<And>ss keys b. chunk_wf k (fst (Next X ss keys b))"
    and empty_wf: "\<And>jt hn b. chunk_wf k (ConstructEmptyJoinResult X jt hn b)"
    and table: "ht_count (hash_table sink) \<noteq> 0 \<or>
         (\<forall>b. 0 < size_chunk b \<longrightarrow>
              0 < size_chunk (ConstructEmptyJoinResult X (ht_join_type (hash_table sink))
                                (has_null (hash_table sink)) b))"
    and cache_wf: "chunk_wf k (cached_chunk st)"
    and stream: "list_all (\<lambda>b. 0 < size_chunk b) (child_state st)"
    and ch: "size_chunk ch = 0"
    and r: "r = GetChunkLoop True threshold capacity X this sink ch st"
  shows "(size_chunk (fst r) = 0 \<longrightarrow>
            size_chunk (cached_chunk st) = 0 \<and>
            drain (Suc 0) False 0 0 X this sink c st = Some []) \<and>
         (size_chunk (fst r) \<noteq> 0 \<longrightarrow>
            chunk_wf k (cached_chunk (fst (snd r))) \<and>
            list_all (\<lambda>b. 0 < size_chunk b) (child_state (fst (snd r))) \<and>
            hash_table (snd (snd r)) = hash_table sink \<and>
            (\<forall>m' outs'.
               drain m' False 0 0 X this (snd (snd r)) c (fst (snd r)) = Some outs' \<longrightarrow>
               (\<exists>m outs.
                  drain m False 0 0 X this sink c st = Some outs \<and>
                  mset (rows_of (fst r)) + mset (rows_of (cached_chunk (fst (snd r)))) +
                    rows_mset outs'
                  = mset (rows_of (cached_chunk st)) + rows_mset outs)))"
  using cache_wf stream ch r
proof (induction "capacity - size_chunk (cached_chunk st)" arbitrary: st ch r rule: less_induct)
  case less
  let ?slice = "probe_slice X sink st"
  let ?st1 = "probe_next X sink st"
  let ?cache = "cached_chunk st"
  let ?scan = "ScanFullOuter X (hash_table sink) (ht_scan_state sink)"
  let ?sink' = "sink\<lparr>ht_scan_state := snd ?scan\<rparr>"
  note cache_wf = less.prems(1) and stream = less.prems(2) and ch = less.prems(3)
  note r = less.prems(4)[unfolded GetChunkLoop_step[OF ch]]
  have cache1: "cached_chunk ?st1 = ?cache"
    by (rule probe_next_cached)
  have stream1: "list_all (\<lambda>b. 0 < size_chunk b) (child_state ?st1)"
    and dead: "size_chunk ?slice = 0 \<Longrightarrow>
               child_state ?st1 = [] \<and> size_chunk (child_chunk ?st1) = 0"
    using probe_next_stream[OF stream table] by simp_all
  have slice_wf: "chunk_wf k ?slice" if "size_chunk ?slice \<noteq> 0"
    using next_wf empty_wf that by (rule probe_slice_wf)
  have run': "ht_count (hash_table ?sink') \<noteq> 0 \<or>
           (ht_join_type (hash_table ?sink') \<noteq> INNER \<and> ht_join_type (hash_table ?sink') \<noteq> SEMI)"
    using run by simp
  have any_chunk: "drain m False 0 0 X this g c' s = drain m False 0 0 X this g c s"
    if "ht_count (hash_table g) \<noteq> 0 \<or>
           (ht_join_type (hash_table g) \<noteq> INNER \<and> ht_join_type (hash_table g) \<noteq> SEMI)"
    for m g c' s
    using that by (intro drain_uncached_same_probe) simp_all
  have any_cache: "drain m False 0 0 X this sink c (s\<lparr>cached_chunk := x\<rparr>)
                     = drain m False 0 0 X this sink c s" for m s x
    using run by (intro drain_uncached_same_probe) simp_all
  have step_slice: "drain (Suc m) False 0 0 X this sink c st
                      = map_option ((#) ?slice) (drain m False 0 0 X this sink c ?st1)"
    if "size_chunk ?slice \<noteq> 0" for m
    using that any_chunk[OF run, of m ?slice ?st1] by (simp add: drain_uncached_step[OF run])
  have step_scan: "drain (Suc m) False 0 0 X this sink c st
                      = map_option ((#) (fst ?scan)) (drain m False 0 0 X this ?sink' c ?st1)"
    if "size_chunk ?slice = 0" "join_type this = OUTER" "size_chunk (fst ?scan) \<noteq> 0" for m
    using that any_chunk[OF run', of m "fst ?scan" ?st1] by (simp add: drain_uncached_step[OF run])
  have step_end: "drain (Suc m) False 0 0 X this sink c st = Some []"
    if "size_chunk ?slice = 0" "join_type this \<noteq> OUTER \<or> size_chunk (fst ?scan) = 0" for m
    using that by (auto simp: drain_uncached_step[OF run])
  show ?case
  proof (cases "size_chunk ?slice = 0")
    case True
    note empty = True
    show ?thesis
    proof (cases "0 < size_chunk ?cache")
      case True
      have r': "r = (?cache, ?st1\<lparr>cached_chunk := Reset ?cache\<rparr>, sink)"
        using r empty True by simp
      have "drain m' False 0 0 X this sink c st = Some outs'"
        if "drain m' False 0 0 X this sink c (?st1\<lparr>cached_chunk := Reset ?cache\<rparr>) = Some outs'"
        for m' outs'
      proof -
        have "drain m' False 0 0 X this sink c st = drain m' False 0 0 X this sink c ?st1"
          using run empty dead[OF empty] by (intro drain_uncached_finished) simp_all
        then show ?thesis
          using that by (simp add: any_cache)
      qed
      then show ?thesis
        unfolding r' using True cache_wf stream1
        by (auto simp: chunk_wf_Reset rows_of_empty)
    next
      case False
      note no_cache = False
      show ?thesis
      proof (cases "join_type this = OUTER \<and> size_chunk (fst ?scan) \<noteq> 0")
        case True
        have r': "r = (fst ?scan, ?st1, ?sink')"
          using r empty no_cache True by simp
        have "drain (Suc m') False 0 0 X this sink c st = Some (fst ?scan # outs')"
          if "drain m' False 0 0 X this ?sink' c ?st1 = Some outs'" for m' outs'
          using that True empty by (simp add: step_scan)
        then have "\<exists>m outs. drain m False 0 0 X this sink c st = Some outs \<and>
                    mset (rows_of (fst ?scan)) + mset (rows_of ?cache) + rows_mset outs'
                    = mset (rows_of ?cache) + rows_mset outs"
          if "drain m' False 0 0 X this ?sink' c ?st1 = Some outs'" for m' outs'
          using that by (intro exI[of _ "Suc m'"] exI[of _ "fst ?scan # outs'"])
                        (simp add: rows_mset_Cons)
        then show ?thesis
          unfolding r' using True cache_wf stream1 cache1 by simp
      next
        case False
        have "size_chunk (fst (ProbeHashTable X sink ch st)) = 0"
          using empty by (simp add: ProbeHashTable_slice(2)[OF ch])
        then have "size_chunk (fst r) = 0"
          using r empty no_cache False by auto
        moreover have "drain (Suc 0) False 0 0 X this sink c st = Some []"
          using empty False by (intro step_end) auto
        ultimately show ?thesis
          using no_cache by simp
      qed
    qed
  next
    case False
    note nonempty = False
    note wf = slice_wf[OF nonempty]
    show ?thesis
    proof (cases "size_chunk ?slice < threshold")
      case False
      have r': "r = (?slice, ?st1, sink)"
        using r nonempty False by simp
      have "\<exists>m outs. drain m False 0 0 X this sink c st = Some outs \<and>
                  mset (rows_of ?slice) + mset (rows_of ?cache) + rows_mset outs'
                  = mset (rows_of ?cache) + rows_mset outs"
        if "drain m' False 0 0 X this sink c ?st1 = Some outs'" for m' outs'
        using that nonempty
        by (intro exI[of _ "Suc m'"] exI[of _ "?slice # outs'"]) (simp add: rows_mset_Cons step_slice)
      then show ?thesis
        unfolding r' using nonempty cache_wf stream1 cache1 by simp
    next
      case True
      note small = True
      let ?cache' = "Append ?cache ?slice"
      have cache'_wf: "chunk_wf k ?cache'"
        using cache_wf wf by (rule chunk_wf_Append)
      have cache'_size: "size_chunk ?cache' = size_chunk ?cache + size_chunk ?slice"
        by (rule size_Append)
      have cache'_rows: "mset (rows_of ?cache') = mset (rows_of ?cache) + mset (rows_of ?slice)"
        using rows_of_Append[OF cache_wf wf] by simp
      show ?thesis
      proof (cases "capacity \<le> size_chunk ?cache'")
        case True
        have r': "r = (?cache', ?st1\<lparr>cached_chunk := Reset ?cache'\<rparr>, sink)"
          using r nonempty small True by simp
        have "\<exists>m outs. drain m False 0 0 X this sink c st = Some outs \<and>
                  mset (rows_of ?cache') + mset (rows_of (Reset ?cache')) + rows_mset outs'
                  = mset (rows_of ?cache) + rows_mset outs"
          if "drain m' False 0 0 X this sink c (?st1\<lparr>cached_chunk := Reset ?cache'\<rparr>) = Some outs'"
          for m' outs'
          using that nonempty
          by (intro exI[of _ "Suc m'"] exI[of _ "?slice # outs'"])
             (simp add: rows_mset_Cons step_slice any_cache cache'_rows rows_of_empty)
        then show ?thesis
          unfolding r' using nonempty cache'_size cache'_wf stream1
          by (simp add: chunk_wf_Reset)
      next
        case False
        let ?st2 = "?st1\<lparr>cached_chunk := ?cache'\<rparr>"
        have r': "r = GetChunkLoop True threshold capacity X this sink (Reset ?slice) ?st2"
          using r nonempty small False by simp
        have less: "capacity - size_chunk (cached_chunk ?st2) < capacity - size_chunk ?cache"
          using False nonempty cache'_size by simp
        have wf2: "chunk_wf k (cached_chunk ?st2)"
          using cache'_wf by simp
        have stream2: "list_all (\<lambda>b. 0 < size_chunk b) (child_state ?st2)"
          using stream1 by simp
        note IH = less.hyps[OF less wf2 stream2 size_Reset r']
        have out: "size_chunk (fst r) \<noteq> 0"
          using IH nonempty cache'_size by auto
        have "\<exists>m outs. drain m False 0 0 X this sink c st = Some outs \<and>
                  mset (rows_of (fst r)) + mset (rows_of (cached_chunk (fst (snd r)))) +
                    rows_mset outs'
                  = mset (rows_of ?cache) + rows_mset outs"
          if d': "drain m' False 0 0 X this (snd (snd r)) c (fst (snd r)) = Some outs'" for m' outs'
        proof -
          obtain m2 outs2 where
            d2: "drain m2 False 0 0 X this sink c ?st2 = Some outs2" and
            rows2: "mset (rows_of (fst r)) + mset (rows_of (cached_chunk (fst (snd r)))) +
                      rows_mset outs'
                    = mset (rows_of (cached_chunk ?st2)) + rows_mset outs2"
            using IH out d' by blast
          have "drain (Suc m2) False 0 0 X this sink c st = Some (?slice # outs2)"
            using d2 nonempty by (simp add: step_slice any_cache)
          moreover have "mset (rows_of (cached_chunk ?st2)) + rows_mset outs2
                          = mset (rows_of ?cache) + rows_mset (?slice # outs2)"
            by (simp add: cache'_rows rows_mset_Cons)
          ultimately show ?thesis
            using rows2 by (intro exI[of _ "Suc m2"] exI[of _ "?slice # outs2"]) simp
        qed
        then show ?thesis
          using IH out by simp
      qed
    qed
  qed
qed

lemma coalescing_drain:
  fixes X :: "('t, 'x, 'v, 'h, 'ss, 'fs) collaborators"
  assumes next_wf: "\<And>ss keys b. chunk_wf k (fst (Next X ss keys b))"
    and empty_wf: "\<And>jt hn b. chunk_wf k (ConstructEmptyJoinResult X jt hn b)"
    and run: "ht_count (hash_table sink) \<noteq> 0 \<or>
           (ht_join_type (hash_table sink) \<noteq> INNER \<and> ht_join_type (hash_table sink) \<noteq> SEMI)"
    and table: "ht_count (hash_table sink) \<noteq> 0 \<or>
         (\<forall>b. 0 < size_chunk b \<longrightarrow>
              0 < size_chunk (ConstructEmptyJoinResult X (ht_join_type (hash_table sink))
                                (has_null (hash_table sink)) b))"
    and cache_wf: "chunk_wf k (cached_chunk st)"
    and stream: "list_all (\<lambda>b. 0 < size_chunk b) (child_state st)"
    and drained: "drain n True threshold capacity X this sink c st = Some outs"
  shows "\<exists>m outsU. drain m False 0 0 X this sink c st = Some outsU \<and>
                    rows_mset outs = mset (rows_of (cached_chunk st)) + rows_mset outsU"
  using run table cache_wf stream drained
proof (induction n arbitrary: sink c st outs)
  case 0
  then show ?case by (simp add: drain.simps)
next
  case (Suc n)
  note run = Suc.prems(1) and table = Suc.prems(2) and cache_wf = Suc.prems(3)
    and stream = Suc.prems(4)
  let ?r = "GetChunkLoop True threshold capacity X this sink (Reset c) st"
  have call: "GetChunkInternal_with True threshold capacity X this sink (Reset c) st = ?r"
    using run by (auto simp: GetChunkInternal_with_def)
  note loop = coalescing_loop[OF run next_wf empty_wf table cache_wf stream size_Reset[of c] refl,
                where c = c and threshold = threshold and capacity = capacity and this = this]
  show ?case
  proof (cases "size_chunk (fst ?r) = 0")
    case True
    then have "outs = []"
      using Suc.prems(5) by (simp add: drain.simps call Let_def)
    moreover have "size_chunk (cached_chunk st) = 0"
      "drain (Suc 0) False 0 0 X this sink c st = Some []"
      using loop True by simp_all
    ultimately show ?thesis
      by (intro exI[of _ "Suc 0"] exI[of _ "[]"]) (simp add: rows_mset_Nil rows_of_empty)
  next
    case False
    then obtain rest where
      rest: "drain n True threshold capacity X this (snd (snd ?r)) (fst ?r) (fst (snd ?r)) = Some rest"
      and outs: "outs = fst ?r # rest"
      using Suc.prems(5) by (auto simp: drain.simps call Let_def)
    have after: "chunk_wf k (cached_chunk (fst (snd ?r)))"
      "list_all (\<lambda>b. 0 < size_chunk b) (child_state (fst (snd ?r)))"
      "hash_table (snd (snd ?r)) = hash_table sink"
      using loop False by simp_all
    have run': "ht_count (hash_table (snd (snd ?r))) \<noteq> 0 \<or>
           (ht_join_type (hash_table (snd (snd ?r))) \<noteq> INNER \<and>
            ht_join_type (hash_table (snd (snd ?r))) \<noteq> SEMI)"
      using run by (simp only: after(3))
    have table': "ht_count (hash_table (snd (snd ?r))) \<noteq> 0 \<or>
         (\<forall>b. 0 < size_chunk b \<longrightarrow>
              0 < size_chunk (ConstructEmptyJoinResult X (ht_join_type (hash_table (snd (snd ?r))))
                                (has_null (hash_table (snd (snd ?r)))) b))"
      using table by (simp only: after(3))
    obtain m' outsU' where
      d': "drain m' False 0 0 X this (snd (snd ?r)) (fst ?r) (fst (snd ?r)) = Some outsU'" and
      rows': "rows_mset rest = mset (rows_of (cached_chunk (fst (snd ?r)))) + rows_mset outsU'"
      using Suc.IH[OF run' table' after(1,2) rest] by blast
    have "drain m' False 0 0 X this (snd (snd ?r)) c (fst (snd ?r)) = Some outsU'"
      using d' drain_uncached_same_probe[OF run' same_probe_refl,
              of m' 0 0 X this c "fst (snd ?r)" 0 0 "fst ?r"]
      by simp
    then obtain m outsU where
      d: "drain m False 0 0 X this sink c st = Some outsU" and
      rows: "mset (rows_of (fst ?r)) + mset (rows_of (cached_chunk (fst (snd ?r)))) +
               rows_mset outsU'
             = mset (rows_of (cached_chunk st)) + rows_mset outsU"
      using loop False by blast
    have "rows_mset outs = mset (rows_of (fst ?r)) + rows_mset rest"
      by (simp add: outs rows_mset_Cons)
    also have "\<dots> = mset (rows_of (fst ?r)) + mset (rows_of (cached_chunk (fst (snd ?r)))) +
                      rows_mset outsU'"
      by (simp only: rows' add.assoc)
    also have "\<dots> = mset (rows_of (cached_chunk st)) + rows_mset outsU"
      by (rule rows)
    finally show ?thesis
      using d by blast
  qed
qed

lemma drain_shortcut:
  assumes "ht_count (hash_table sink) = 0"
    and "ht_join_type (hash_table sink) = INNER \<or> ht_join_type (hash_table sink) = SEMI"
    and "drain n caching threshold capacity X this sink c st = Some outs"
  shows "outs = []"
  using assms by (cases n) (auto simp: drain.simps GetChunkInternal_with_def Let_def)

lemma chunk_wf_rows_chunk: "chunk_wf 2 (rows_chunk n v)"
  by (simp add: chunk_wf_def rows_chunk_def)

lemma rows_of_rows_chunk: "rows_of (rows_chunk n v) = replicate n [v, v]"
  by (rule nth_equalityI) (simp_all add: rows_of_def rows_chunk_def)

lemmas example_counting_defs =
  drain.simps GetChunkInternal_with_def GetChunkLoop_unfold ProbeHashTable_def probe_loop.simps
  child_GetChunk_def example_counting_collaborators_def example_join_def example_counting_sink_def
  example_counting_state_def GetOperatorState_def JoinHashTable_new_def rows_chunk_def Let_def
  Initialize_def Reset_def size_chunk_def Append_def

lemma example_drain_coalesced:
  "drain (Suc (Suc 0)) True 64 960 example_counting_collaborators (example_join LEFT)
     example_counting_sink (rows_chunk 0 0) example_counting_state
   = Some [\<lparr>data = [[2, 2, 1], [2, 2, 1]], cardinality = 3\<rparr>]"
  by (simp add: example_counting_defs numeral_2_eq_2)

lemma example_drain_uncoalesced:
  "drain (Suc (Suc (Suc 0))) False 64 0 example_counting_collaborators (example_join LEFT)
     example_counting_sink (rows_chunk 0 0) example_counting_state
   = Some [rows_chunk 2 2, rows_chunk 1 1]"
  by (simp add: example_counting_defs numeral_2_eq_2)

subsection \<open>The scan structure pointer after the fetch loop\<close>

lemma probe_loop_keeps_live:
  "scan_structure st \<noteq> None \<Longrightarrow> scan_structure (snd (probe_loop X sink chunk st)) \<noteq> None"
proof (induction X sink chunk st rule: probe_loop.induct)
  case (1 X sink chunk st)
  let ?st1 = "child_GetChunk st"
  let ?keys = "Execute X (probe_executor ?st1) (child_chunk ?st1)"
  let ?r = "Next X (Probe X (hash_table sink) ?keys) ?keys (child_chunk ?st1)"
  let ?st2 = "?st1\<lparr>join_keys := ?keys, scan_structure := Some (snd ?r)\<rparr>"
  show ?case
  proof (cases "size_chunk (child_chunk ?st1) \<noteq> 0 \<and> ht_count (hash_table sink) \<noteq> 0 \<and>
                size_chunk (fst ?r) = 0")
    case True
    have l: "probe_loop X sink chunk st = probe_loop X sink (fst ?r) ?st2"
      using True by (subst probe_loop.simps) (simp add: Let_def)
    show ?thesis
      unfolding l
      using "1.IH"[OF refl, of "?st1\<lparr>join_keys := ?keys\<rparr>" "Probe X (hash_table sink) ?keys" ?r ?st2]
        True by simp
  next
    case False
    then show ?thesis
      using "1.prems" by (subst probe_loop.simps) (auto simp: Let_def)
  qed
qed

lemma probe_loop_current:
  "ht_count (hash_table sink) \<noteq> 0 \<Longrightarrow>
   0 < size_chunk (child_chunk (snd (probe_loop X sink chunk st))) \<Longrightarrow>
   scan_structure (snd (probe_loop X sink chunk st))
     = Some (probed_structure X sink st (child_chunk (snd (probe_loop X sink chunk st))))"
proof (induction X sink chunk st rule: probe_loop.induct)
  case (1 X sink chunk st)
  let ?st1 = "child_GetChunk st"
  let ?keys = "Execute X (probe_executor ?st1) (child_chunk ?st1)"
  let ?r = "Next X (Probe X (hash_table sink) ?keys) ?keys (child_chunk ?st1)"
  let ?st2 = "?st1\<lparr>join_keys := ?keys, scan_structure := Some (snd ?r)\<rparr>"
  have same: "probed_structure X sink ?st2 c = probed_structure X sink st c" for c
    by (simp add: probed_structure_def)
  show ?case
  proof (cases "size_chunk (child_chunk ?st1) \<noteq> 0 \<and> size_chunk (fst ?r) = 0")
    case True
    have l: "probe_loop X sink chunk st = probe_loop X sink (fst ?r) ?st2"
      using True "1.prems"(1) by (subst probe_loop.simps) (simp add: Let_def)
    show ?thesis
      using "1.IH"[OF refl, of "?st1\<lparr>join_keys := ?keys\<rparr>" "Probe X (hash_table sink) ?keys" ?r ?st2]
        True "1.prems" unfolding l by (simp add: probed_structure_def)
  next
    case False
    have l: "probe_loop X sink chunk st =
         (if size_chunk (child_chunk ?st1) = 0 then (chunk, ?st1) else (fst ?r, ?st2))"
      using False "1.prems"(1) by (subst probe_loop.simps) (auto simp: Let_def)
    show ?thesis
      using "1.prems"(2) unfolding l by (auto simp: probed_structure_def)
  qed
qed

lemma probe_loop_null_iff:
  assumes "scan_structure st = None"
  shows "scan_structure (snd (probe_loop X sink chunk st)) = None \<longleftrightarrow>
         child_state st = [] \<or> ht_count (hash_table sink) = 0 \<or>
         size_chunk (hd (child_state st)) = 0"
proof (cases "child_state st")
  case Nil
  then show ?thesis
    using assms by (simp add: probe_loop_exhausted)
next
  case (Cons c cs)
  let ?st1 = "child_GetChunk st"
  let ?keys = "Execute X (probe_executor ?st1) (child_chunk ?st1)"
  let ?r = "Next X (Probe X (hash_table sink) ?keys) ?keys (child_chunk ?st1)"
  let ?st2 = "?st1\<lparr>join_keys := ?keys, scan_structure := Some (snd ?r)\<rparr>"
  have fetched: "child_chunk ?st1 = c"
    using child_GetChunk_Cons[OF Cons] by simp
  show ?thesis
  proof (cases "size_chunk c = 0 \<or> ht_count (hash_table sink) = 0")
    case True
    then have "scan_structure (snd (probe_loop X sink chunk st)) = None"
      using assms fetched by (subst probe_loop.simps) (auto simp: Let_def)
    then show ?thesis
      using True Cons by auto
  next
    case False
    have "scan_structure (snd (probe_loop X sink chunk st)) \<noteq> None"
    proof (cases "size_chunk (fst ?r) = 0")
      case True
      have l: "probe_loop X sink chunk st = probe_loop X sink (fst ?r) ?st2"
        using True False fetched by (subst probe_loop.simps) (simp add: Let_def)
      show ?thesis
        unfolding l by (rule probe_loop_keeps_live) simp
    next
      case nonempty: False
      have l: "probe_loop X sink chunk st = (fst ?r, ?st2)"
        using nonempty False fetched by (subst probe_loop.simps) (simp add: Let_def)
      show ?thesis
        unfolding l by simp
    qed
    then show ?thesis
      using False Cons by auto
  qed
qed

subsection \<open>Sink and the local sink states\<close>

lemma reference_columns_length:
  "reference_columns input rpm bc idxs = Inr bc' \<Longrightarrow> length (data bc') = length (data bc)"
proof (induction idxs arbitrary: bc)
  case Nil
  then show ?case by simp
next
  case (Cons i idxs)
  then show ?case
    by (auto simp: reference_column_def split: sum.splits if_splits)
qed

lemma local_sink_state_inv:
  "local_sink_state X this lstate \<Longrightarrow>
   build_executor lstate = map right (conditions this) \<and>
   (right_projection_map this \<noteq> [] \<longrightarrow>
      length (data (build_chunk lstate)) = length (build_types this))"
proof (induction rule: local_sink_state.induct)
  case created
  then show ?case
    by (simp add: GetLocalSinkState_def Initialize_def)
next
  case (sunk lstate sink input sink' lstate')
  show ?case
  proof (cases "right_projection_map this = []")
    case True
    then show ?thesis
      using sunk by (auto simp: Sink_def Let_def)
  next
    case False
    let ?bc = "SetCardinality (Reset (build_chunk lstate)) (size_chunk input)"
    obtain bc where bc: "reference_columns input (right_projection_map this) ?bc
                           [0..<length (right_projection_map this)] = Inr bc"
      and l': "lstate' = lstate\<lparr>sink_join_keys := Execute X (build_executor lstate) input,
                                build_chunk := bc\<rparr>"
      using sunk.hyps(2) False by (auto simp: Sink_def Let_def split: sum.splits)
    have "length (data bc) = length (data ?bc)"
      using bc by (rule reference_columns_length)
    then show ?thesis
      using sunk.IH l' by (simp add: SetCardinality_def Reset_def)
  qed
qed

lemma constructed_fields:
  assumes "PhysicalHashJoin_new NDEBUG op_types l r cond jt left_projection_map rpm = Inr this"
  shows "conditions this = cond" "right_projection_map this = rpm" "join_type this = jt"
    "children this = [l, r]"
    "jt \<notin> {SEMI, ANTI, MARK} \<Longrightarrow> MapTypes r rpm = Inr (build_types this)"
  using assms
  by (auto simp: PhysicalHashJoin_new_def Let_def split: sum.splits if_splits)

lemma Sink_result:
  assumes cols: "right_projection_map this \<noteq> [] \<longrightarrow>
               length (data (build_chunk lstate)) = length (right_projection_map this)"
    and idx: "list_all (\<lambda>j. j < length (data input)) (right_projection_map this)"
  shows "Sink X this sink lstate input =
           Inr (sink\<lparr>hash_table :=
                       Build X (hash_table sink) (Execute X (build_executor lstate) input)
                         (if right_projection_map this = [] then input
                          else \<lparr>data = map (\<lambda>j. data input ! j) (right_projection_map this),
                                cardinality = cardinality input\<rparr>)\<rparr>,
                lstate\<lparr>sink_join_keys := Execute X (build_executor lstate) input,
                       build_chunk :=
                         (if right_projection_map this = [] then build_chunk lstate
                          else \<lparr>data = map (\<lambda>j. data input ! j) (right_projection_map this),
                                cardinality = cardinality input\<rparr>)\<rparr>)"
proof (cases "right_projection_map this = []")
  case True
  then show ?thesis
    by (simp add: Sink_def Let_def)
next
  case False
  let ?bc = "SetCardinality (Reset (build_chunk lstate)) (size_chunk input)"
  have len: "length (right_projection_map this) = length (data ?bc)"
    using cols False by (simp add: SetCardinality_def Reset_def)
  have "reference_columns input (right_projection_map this) ?bc
          [0..<length (right_projection_map this)] =
        Inr (?bc\<lparr>data := map (\<lambda>j. data input ! j) (right_projection_map this)\<rparr>)"
    using len idx by (rule reference_columns_all)
  then have "Sink X this sink lstate input =
     Inr (sink\<lparr>hash_table := Build X (hash_table sink) (Execute X (build_executor lstate) input)
                   (?bc\<lparr>data := map (\<lambda>j. data input ! j) (right_projection_map this)\<rparr>)\<rparr>,
          lstate\<lparr>sink_join_keys := Execute X (build_executor lstate) input,
                 build_chunk := ?bc\<lparr>data := map (\<lambda>j. data input ! j) (right_projection_map this)\<rparr>\<rparr>)"
    using False unfolding Sink_def Let_def by simp
  moreover have "?bc\<lparr>data := map (\<lambda>j. data input ! j) (right_projection_map this)\<rparr>
                 = \<lparr>data = map (\<lambda>j. data input ! j) (right_projection_map this),
                                cardinality = cardinality input\<rparr>"
    by (simp add: SetCardinality_def Reset_def size_chunk_def)
  ultimately show ?thesis
    using False by simp
qed

subsection \<open>The states of one call, and the calls after the end of the stream\<close>

lemma probe_loop_nonempty_child:
  "size_chunk c = 0 \<Longrightarrow> 0 < size_chunk (fst (probe_loop X sink c st)) \<Longrightarrow>
   0 < size_chunk (child_chunk (snd (probe_loop X sink c st)))"
proof (induction X sink c st rule: probe_loop.induct)
  case (1 X sink c st)
  let ?st1 = "child_GetChunk st"
  let ?keys = "Execute X (probe_executor ?st1) (child_chunk ?st1)"
  let ?r = "Next X (Probe X (hash_table sink) ?keys) ?keys (child_chunk ?st1)"
  let ?st2 = "?st1\<lparr>join_keys := ?keys, scan_structure := Some (snd ?r)\<rparr>"
  show ?case
  proof (cases "size_chunk (child_chunk ?st1) \<noteq> 0 \<and> ht_count (hash_table sink) \<noteq> 0 \<and>
                size_chunk (fst ?r) = 0")
    case True
    have l: "probe_loop X sink c st = probe_loop X sink (fst ?r) ?st2"
      using True by (subst probe_loop.simps) (simp add: Let_def)
    show ?thesis
      using "1.IH"[OF refl, of "?st1\<lparr>join_keys := ?keys\<rparr>" "Probe X (hash_table sink) ?keys" ?r ?st2]
        True "1.prems"(2) unfolding l by simp
  next
    case False
    have l: "probe_loop X sink c st =
         (if size_chunk (child_chunk ?st1) = 0 then (c, ?st1)
          else if ht_count (hash_table sink) = 0
          then (ConstructEmptyJoinResult X (ht_join_type (hash_table sink))
                  (has_null (hash_table sink)) (child_chunk ?st1), ?st1)
          else (fst ?r, ?st2))"
      using False by (subst probe_loop.simps) (auto simp: Let_def)
    show ?thesis
      using "1.prems" unfolding l by (auto split: if_splits)
  qed
qed

lemma probe_slice_nonempty_child:
  assumes "0 < size_chunk (probe_slice X sink st)"
  shows "0 < size_chunk (child_chunk (probe_next X sink st))"
proof (cases "0 < size_chunk (child_chunk st) \<and> scan_structure st \<noteq> None")
  case False
  then have "ProbeHashTable X sink empty_DataChunk st = probe_loop X sink empty_DataChunk st"
    by (auto simp: ProbeHashTable_def)
  then show ?thesis
    using assms probe_loop_nonempty_child[of empty_DataChunk X sink st]
    by (simp add: probe_slice_def probe_next_def)
next
  case True
  then obtain ss where ss: "scan_structure st = Some ss"
    by auto
  let ?r = "Next X ss (join_keys st) (child_chunk st)"
  have eq: "ProbeHashTable X sink empty_DataChunk st =
          (if 0 < size_chunk (fst ?r) then (fst ?r, st\<lparr>scan_structure := Some (snd ?r)\<rparr>)
           else probe_loop X sink (fst ?r) (st\<lparr>scan_structure := None\<rparr>))"
    using ProbeHashTable_resume[OF ss, of X "fst ?r" "snd ?r" sink empty_DataChunk] True by simp
  show ?thesis
  proof (cases "0 < size_chunk (fst ?r)")
    case nonempty: True
    then show ?thesis
      using True by (simp add: probe_next_def eq)
  next
    case False
    then show ?thesis
      using assms probe_loop_nonempty_child[of "fst ?r" X sink "st\<lparr>scan_structure := None\<rparr>"]
      by (simp add: probe_slice_def probe_next_def eq)
  qed
qed

lemma probe_meets_end_slice:
  "probe_meets_end X sink st \<Longrightarrow> size_chunk (probe_slice X sink st) = 0"
  using probe_slice_nonempty_child[of X sink st] by (auto simp: probe_meets_end_def)

lemma loop_reaches_GetChunkLoop:
  "loop_reaches caching threshold capacity X sink st s \<Longrightarrow> size_chunk ch = 0 \<Longrightarrow>
   \<exists>ch'. size_chunk ch' = 0 \<and>
         GetChunkLoop caching threshold capacity X this sink ch st
           = GetChunkLoop caching threshold capacity X this sink ch' s"
proof (induction arbitrary: ch rule: loop_reaches.induct)
  case (entry st)
  then show ?case by blast
next
  case (again st s)
  let ?st2 = "(probe_next X sink st)
                \<lparr>cached_chunk := Append (cached_chunk st) (probe_slice X sink st)\<rparr>"
  have "GetChunkLoop caching threshold capacity X this sink ch st
          = GetChunkLoop caching threshold capacity X this sink (Reset (probe_slice X sink st)) ?st2"
    using again.hyps(1-4) by (simp add: GetChunkLoop_step[OF again.prems])
  moreover obtain ch' where "size_chunk ch' = 0"
    "GetChunkLoop caching threshold capacity X this sink (Reset (probe_slice X sink st)) ?st2
       = GetChunkLoop caching threshold capacity X this sink ch' s"
    using again.IH[of "Reset (probe_slice X sink st)"] by auto
  ultimately show ?case
    by auto
qed

lemma loop_reaches_cache:
  "loop_reaches caching threshold capacity X sink st s \<Longrightarrow>
   0 < size_chunk (cached_chunk st) \<longrightarrow> caching \<Longrightarrow>
   0 < size_chunk (cached_chunk s) \<longrightarrow> caching"
  by (induction rule: loop_reaches.induct) simp_all

lemma GetChunkLoop_end_reached:
  assumes "size_chunk ch = 0"
    and "r = GetChunkLoop caching threshold capacity X this sink ch st"
    and "child_state (fst (snd r)) = []" "size_chunk (child_chunk (fst (snd r))) = 0"
  shows "\<exists>s. loop_reaches caching threshold capacity X sink st s \<and> probe_meets_end X sink s"
  using assms
proof (induction "capacity - size_chunk (cached_chunk st)" arbitrary: st ch r rule: less_induct)
  case less
  let ?slice = "probe_slice X sink st"
  let ?st1 = "probe_next X sink st"
  let ?cache' = "Append (cached_chunk st) ?slice"
  let ?st2 = "?st1\<lparr>cached_chunk := ?cache'\<rparr>"
  note ch = less.prems(1)
  note r = less.prems(2)[unfolded GetChunkLoop_step[OF ch]]
  show ?case
  proof (cases "size_chunk ?slice = 0")
    case True
    then have "child_state (fst (snd r)) = child_state ?st1"
      "child_chunk (fst (snd r)) = child_chunk ?st1"
      using r by (auto split: if_splits)
    then have "probe_meets_end X sink st"
      using less.prems(3,4) by (simp add: probe_meets_end_def)
    then show ?thesis
      using loop_reaches.entry by blast
  next
    case False
    note child = probe_slice_nonempty_child[of X sink st]
    show ?thesis
    proof (cases "caching \<and> size_chunk ?slice < threshold \<and> \<not> capacity \<le> size_chunk ?cache'")
      case True
      have r': "r = GetChunkLoop caching threshold capacity X this sink (Reset ?slice) ?st2"
        using r False True by simp
      have smaller: "capacity - size_chunk (cached_chunk ?st2)
                      < capacity - size_chunk (cached_chunk st)"
        using True False by (auto simp: size_Append)
      obtain s where "loop_reaches caching threshold capacity X sink ?st2 s"
        "probe_meets_end X sink s"
        using less.hyps[OF smaller size_Reset r' less.prems(3,4)] by blast
      then show ?thesis
        using loop_reaches.again[of caching X sink st threshold capacity s] True False
        by auto
    next
      case other: False
      then have "child_chunk (fst (snd r)) = child_chunk ?st1"
        using r False by (auto split: if_splits)
      then show ?thesis
        using child False less.prems(4) by simp
    qed
  qed
qed

lemma outer_calls_run:
  assumes "probe_done X st" and "size_chunk (cached_chunk st) = 0"
    and "join_type this = OUTER"
    and "ht_count (hash_table sink) \<noteq> 0 \<or>
         (ht_join_type (hash_table sink) \<noteq> INNER \<and> ht_join_type (hash_table sink) \<noteq> SEMI)"
  shows "fst (GetChunk_calls n STANDARD_VECTOR_SIZE X this sink chunk st)
           = outer_scan n X (hash_table sink) (ht_scan_state sink)"
  using assms
proof (induction n arbitrary: sink chunk st)
  case 0
  then show ?case by simp
next
  case (Suc n)
  let ?r = "GetChunk STANDARD_VECTOR_SIZE X this sink chunk st"
  note run = Suc.prems(4)
  have r: "fst ?r = fst (ScanFullOuter X (hash_table sink) (ht_scan_state sink))"
          "snd (snd ?r) = sink\<lparr>ht_scan_state :=
                                 snd (ScanFullOuter X (hash_table sink) (ht_scan_state sink))\<rparr>"
    using Suc.prems by (simp_all add: GetChunk_done[OF Suc.prems(1) run])
  have after: "probe_done X (fst (snd ?r))" "size_chunk (cached_chunk (fst (snd ?r))) = 0"
    using GetChunk_done_state[OF Suc.prems(1), where sink = sink and STANDARD_VECTOR_SIZE = STANDARD_VECTOR_SIZE and this = this and chunk = chunk] Suc.prems(2)
    by simp_all
  have "fst (GetChunk_calls n STANDARD_VECTOR_SIZE X this (snd (snd ?r)) (fst ?r) (fst (snd ?r)))
          = outer_scan n X (hash_table (snd (snd ?r))) (ht_scan_state (snd (snd ?r)))"
    using after Suc.prems(3) run by (intro Suc.IH) (simp_all add: r)
  then show ?case
    by (simp add: Let_def r)
qed

lemma list_all_dropWhile: "list_all P xs \<Longrightarrow> list_all P (dropWhile Q xs)"
  by (induction xs) auto

lemma outer_scan_dropWhile:
  assumes contract: "\<And>fs. size_chunk (fst (ScanFullOuter X ht fs)) = 0 \<Longrightarrow>
                      size_chunk (fst (ScanFullOuter X ht (snd (ScanFullOuter X ht fs)))) = 0"
  shows "list_all (\<lambda>c. size_chunk c = 0)
           (dropWhile (\<lambda>c. 0 < size_chunk c) (outer_scan n X ht cursor))"
proof (induction n arbitrary: cursor)
  case 0
  then show ?case by simp
next
  case (Suc n)
  show ?case
  proof (cases "0 < size_chunk (fst (ScanFullOuter X ht cursor))")
    case True
    then show ?thesis
      using Suc.IH by simp
  next
    case False
    then have "list_all (\<lambda>c. size_chunk c = 0) (outer_scan (Suc n) X ht cursor)"
      using contract by (intro outer_scan_exhausted) simp_all
    then show ?thesis
      by (rule list_all_dropWhile)
  qed
qed

lemmas example_probe_defs =
  probe_slice_def probe_next_def empty_DataChunk_def ProbeHashTable_def probe_loop.simps
  child_GetChunk_def example_collaborators_def example_join_def example_sink_def example_state_def
  GetOperatorState_def JoinHashTable_new_def rows_chunk_def Let_def Initialize_def Reset_def
  size_chunk_def Append_def

lemma example_outer_first_probe:
  "probe_slice (example_collaborators [rows_chunk 1 2]) (example_sink OUTER 5 [rows_chunk 1 7])
     (example_state OUTER [rows_chunk 1 9]) = rows_chunk 1 2"
  "(probe_next (example_collaborators [rows_chunk 1 2]) (example_sink OUTER 5 [rows_chunk 1 7])
      (example_state OUTER [rows_chunk 1 9]))
     \<lparr>cached_chunk := Append (cached_chunk (example_state OUTER [rows_chunk 1 9]))
                         (rows_chunk 1 2)\<rparr>
   = example_outer_caching_state"
  by (simp_all add: example_probe_defs example_outer_caching_state_def)

lemma example_outer_reaches:
  "loop_reaches (128 \<le> (1024::nat)) 64 (1024 - 64) (example_collaborators [rows_chunk 1 2])
     (example_sink OUTER 5 [rows_chunk 1 7]) (example_state OUTER [rows_chunk 1 9])
     example_outer_caching_state"
proof (rule loop_reaches.again)
  let ?X = "example_collaborators [rows_chunk 1 2]"
  let ?sink = "example_sink OUTER 5 [rows_chunk 1 7]"
  let ?st = "example_state OUTER [rows_chunk 1 9]"
  show "128 \<le> (1024::nat)"
    by simp
  show "0 < size_chunk (probe_slice ?X ?sink ?st)"
    by (simp only: example_outer_first_probe) (simp add: rows_chunk_def size_chunk_def)
  show "size_chunk (probe_slice ?X ?sink ?st) < 64"
    by (simp only: example_outer_first_probe) (simp add: rows_chunk_def size_chunk_def)
  show "size_chunk (Append (cached_chunk ?st) (probe_slice ?X ?sink ?st)) < 1024 - 64"
    by (simp only: example_outer_first_probe)
       (simp add: rows_chunk_def size_chunk_def Append_def example_state_def GetOperatorState_def
          Initialize_def)
  show "loop_reaches (128 \<le> (1024::nat)) 64 (1024 - 64) ?X ?sink
          ((probe_next ?X ?sink ?st)
             \<lparr>cached_chunk := Append (cached_chunk ?st) (probe_slice ?X ?sink ?st)\<rparr>)
          example_outer_caching_state"
    by (simp only: example_outer_first_probe) (rule loop_reaches.entry)
qed

lemma example_outer_meets_end:
  "probe_meets_end (example_collaborators [rows_chunk 1 2]) (example_sink OUTER 5 [rows_chunk 1 7])
     example_outer_caching_state"
  by (simp add: probe_meets_end_def example_probe_defs example_outer_caching_state_def)

subsection \<open>Draining ends\<close>

lemma live_slices_cached [simp]:
  "live_slices m (st\<lparr>cached_chunk := x\<rparr>) = live_slices m st"
  by (simp add: live_slices_def)

lemma probe_loop_rank:
  "length (child_state (snd (probe_loop X sink c st))) < length (child_state st) \<or>
   (child_state st = [] \<and> child_state (snd (probe_loop X sink c st)) = [] \<and>
    live_slices m (snd (probe_loop X sink c st)) = 0 \<and> fst (probe_loop X sink c st) = c)"
proof (induction X sink c st rule: probe_loop.induct)
  case (1 X sink c st)
  show ?case
  proof (cases "child_state st")
    case Nil
    then show ?thesis
      using child_GetChunk_Nil[of st] by (simp add: probe_loop_exhausted live_slices_def)
  next
    case (Cons b bs)
    let ?st1 = "child_GetChunk st"
    let ?keys = "Execute X (probe_executor st) b"
    let ?r = "Next X (Probe X (hash_table sink) ?keys) ?keys b"
    let ?st2 = "?st1\<lparr>join_keys := ?keys, scan_structure := Some (snd ?r)\<rparr>"
    have fetched: "child_state ?st1 = bs" "child_chunk ?st1 = b"
      using child_GetChunk_Cons[OF Cons] by simp_all
    show ?thesis
    proof (cases "size_chunk b \<noteq> 0 \<and> ht_count (hash_table sink) \<noteq> 0 \<and> size_chunk (fst ?r) = 0")
      case True
      have l: "probe_loop X sink c st = probe_loop X sink (fst ?r) ?st2"
        using True fetched by (subst probe_loop.simps) (simp add: Let_def)
      have "length (child_state (snd (probe_loop X sink (fst ?r) ?st2))) \<le> length bs"
        using "1.IH"[OF refl, of "?st1\<lparr>join_keys := ?keys\<rparr>" "Probe X (hash_table sink) ?keys" ?r ?st2]
          True fetched by auto
      then show ?thesis
        unfolding l using Cons by simp
    next
      case False
      have l: "probe_loop X sink c st =
           (if size_chunk b = 0 then (c, ?st1)
            else if ht_count (hash_table sink) = 0
            then (ConstructEmptyJoinResult X (ht_join_type (hash_table sink))
                    (has_null (hash_table sink)) b, ?st1)
            else (fst ?r, ?st2))"
        using False fetched by (subst probe_loop.simps) (auto simp: Let_def)
      show ?thesis
        unfolding l using fetched Cons by simp
    qed
  qed
qed

lemma probe_rank:
  assumes slices: "\<And>ss keys b. size_chunk (fst (Next X ss keys b)) = 0 \<or>
                      m (snd (Next X ss keys b)) < m ss"
  shows "length (child_state (probe_next X sink st)) < length (child_state st) \<or>
         length (child_state (probe_next X sink st)) = length (child_state st) \<and>
         (live_slices m (probe_next X sink st) < live_slices m st \<or>
          live_slices m (probe_next X sink st) = live_slices m st \<and>
          size_chunk (probe_slice X sink st) = 0)"
proof (cases "0 < size_chunk (child_chunk st) \<and> scan_structure st \<noteq> None")
  case False
  then have eq: "ProbeHashTable X sink empty_DataChunk st = probe_loop X sink empty_DataChunk st"
    by (auto simp: ProbeHashTable_def)
  have "live_slices m st = 0"
    using False by (auto simp: live_slices_def)
  then show ?thesis
    using probe_loop_rank[of X sink empty_DataChunk st m]
    by (auto simp: probe_slice_def probe_next_def eq)
next
  case True
  then obtain ss where ss: "scan_structure st = Some ss"
    by auto
  let ?r = "Next X ss (join_keys st) (child_chunk st)"
  have eq: "ProbeHashTable X sink empty_DataChunk st =
          (if 0 < size_chunk (fst ?r) then (fst ?r, st\<lparr>scan_structure := Some (snd ?r)\<rparr>)
           else probe_loop X sink (fst ?r) (st\<lparr>scan_structure := None\<rparr>))"
    using ProbeHashTable_resume[OF ss, of X "fst ?r" "snd ?r" sink empty_DataChunk] True by simp
  have live: "live_slices m st = Suc (m ss)"
    using True ss by (simp add: live_slices_def)
  show ?thesis
  proof (cases "0 < size_chunk (fst ?r)")
    case nonempty: True
    then have "m (snd ?r) < m ss"
      using slices[of ss "join_keys st" "child_chunk st"] by simp
    then show ?thesis
      using nonempty True live by (simp add: probe_next_def eq live_slices_def)
  next
    case False
    then show ?thesis
      using probe_loop_rank[of X sink "fst ?r" "st\<lparr>scan_structure := None\<rparr>" m] live
      by (auto simp: probe_slice_def probe_next_def eq)
  qed
qed

lemma GetChunkLoop_rank:
  fixes X :: "('t, 'x, 'v, 'h, 'ss, 'fs) collaborators"
  assumes slices: "\<And>ss keys b. size_chunk (fst (Next X ss keys b)) = 0 \<or>
                      m (snd (Next X ss keys b)) < m ss"
    and scan: "\<And>ht fs. size_chunk (fst (ScanFullOuter X ht fs)) = 0 \<or>
                      f (snd (ScanFullOuter X ht fs)) < f fs"
    and ch: "size_chunk ch = 0"
    and r: "r = GetChunkLoop caching threshold capacity X this sink ch st"
  shows "(length (child_state (fst (snd r))) < length (child_state st) \<or>
          length (child_state (fst (snd r))) = length (child_state st) \<and>
          live_slices m (fst (snd r)) \<le> live_slices m st) \<and>
         (0 < size_chunk (fst r) \<longrightarrow>
            (call_rank m f (snd r), call_rank m f (st, sink))
              \<in> less_than <*lex*> less_than <*lex*> less_than <*lex*> less_than)"
  using ch r
proof (induction "capacity - size_chunk (cached_chunk st)" arbitrary: st ch r rule: less_induct)
  case less
  let ?slice = "probe_slice X sink st"
  let ?st1 = "probe_next X sink st"
  let ?cache' = "Append (cached_chunk st) ?slice"
  let ?st2 = "?st1\<lparr>cached_chunk := ?cache'\<rparr>"
  let ?scan = "ScanFullOuter X (hash_table sink) (ht_scan_state sink)"
  note ch = less.prems(1)
  note r = less.prems(2)[unfolded GetChunkLoop_step[OF ch]]
  note probe = probe_rank[of X m sink st, OF slices]
  have cache1: "cached_chunk ?st1 = cached_chunk st"
    by (rule probe_next_cached)
  show ?case
  proof (cases "size_chunk ?slice = 0")
    case True
    have empty: "size_chunk (fst (ProbeHashTable X sink ch st)) = 0"
      using True by (simp add: ProbeHashTable_slice(2)[OF ch])
    show ?thesis
    proof (cases "caching \<and> 0 < size_chunk (cached_chunk st)")
      case flush: True
      have r': "r = (cached_chunk st, ?st1\<lparr>cached_chunk := Reset (cached_chunk st)\<rparr>, sink)"
        using r True flush by simp
      show ?thesis
        unfolding r' using probe flush by (auto simp: call_rank_def)
    next
      case False
      show ?thesis
      proof (cases "join_type this = OUTER")
        case outer: True
        have r': "r = (fst ?scan, ?st1, sink\<lparr>ht_scan_state := snd ?scan\<rparr>)"
          using r True False outer by auto
        show ?thesis
          unfolding r' using probe scan[of "hash_table sink" "ht_scan_state sink"] cache1
          by (auto simp: call_rank_def)
      next
        case other: False
        have r': "r = (fst (ProbeHashTable X sink ch st), ?st1, sink)"
          using r True False other by auto
        show ?thesis
          unfolding r' using probe empty by auto
      qed
    qed
  next
    case False
    note nonempty = False
    have strict: "length (child_state ?st1) < length (child_state st) \<or>
                  length (child_state ?st1) = length (child_state st) \<and>
                  live_slices m ?st1 < live_slices m st"
      using probe nonempty by auto
    show ?thesis
    proof (cases "caching \<and> size_chunk ?slice < threshold")
      case False
      have r': "r = (?slice, ?st1, sink)"
        using r nonempty False by auto
      show ?thesis
        unfolding r' using strict by (auto simp: call_rank_def)
    next
      case small: True
      show ?thesis
      proof (cases "capacity \<le> size_chunk ?cache'")
        case True
        have r': "r = (?cache', ?st1\<lparr>cached_chunk := Reset ?cache'\<rparr>, sink)"
          using r nonempty small True by simp
        show ?thesis
          unfolding r' using strict by (auto simp: call_rank_def)
      next
        case False
        have r': "r = GetChunkLoop caching threshold capacity X this sink (Reset ?slice) ?st2"
          using r nonempty small False by simp
        have smaller: "capacity - size_chunk (cached_chunk ?st2)
                        < capacity - size_chunk (cached_chunk st)"
          using False nonempty by (auto simp: size_Append)
        note IH = less.hyps[OF smaller size_Reset r']
        have below: "length (child_state (fst (snd r))) < length (child_state st) \<or>
                     length (child_state (fst (snd r))) = length (child_state st) \<and>
                     live_slices m (fst (snd r)) < live_slices m st"
          using IH strict by auto
        then show ?thesis
          by (auto simp: call_rank_def)
      qed
    qed
  qed
qed

lemma drain_terminates:
  fixes X :: "('t, 'x, 'v, 'h, 'ss, 'fs) collaborators"
    and sink :: "('t, 'x, 'v, 'h, 'fs) HashJoinGlobalState"
    and m :: "'ss \<Rightarrow> nat" and f :: "'fs \<Rightarrow> nat"
  assumes slices: "\<And>ss keys b. size_chunk (fst (Next X ss keys b)) = 0 \<or>
                      m (snd (Next X ss keys b)) < m ss"
    and scan: "\<And>ht fs. size_chunk (fst (ScanFullOuter X ht fs)) = 0 \<or>
                      f (snd (ScanFullOuter X ht fs)) < f fs"
  shows "\<exists>n outs. drain n caching threshold capacity X this sink c st = Some outs"
proof -
  let ?R = "inv_image (less_than <*lex*> less_than <*lex*> less_than <*lex*> less_than)
              (call_rank m f :: ('t, 'x, 'v, 'ss) PhysicalHashJoinState \<times>
                                ('t, 'x, 'v, 'h, 'fs) HashJoinGlobalState \<Rightarrow> _)"
  have wf: "wf ?R"
    by (intro wf_inv_image wf_lex_prod wf_less_than)
  have "\<forall>c. \<exists>n outs. drain n caching threshold capacity X this (snd p) c (fst p) = Some outs"
    for p :: "('t, 'x, 'v, 'ss) PhysicalHashJoinState \<times> ('t, 'x, 'v, 'h, 'fs) HashJoinGlobalState"
    using wf
  proof (induction p rule: wf_induct_rule)
    case (less p)
    show ?case
    proof
      fix c
      let ?r = "GetChunkInternal_with caching threshold capacity X this (snd p) (Reset c) (fst p)"
      show "\<exists>n outs. drain n caching threshold capacity X this (snd p) c (fst p) = Some outs"
      proof (cases "size_chunk (fst ?r) = 0")
        case True
        then have "drain (Suc 0) caching threshold capacity X this (snd p) c (fst p) = Some []"
          by (simp add: drain.simps Let_def)
        then show ?thesis by blast
      next
        case False
        then have loop: "?r = GetChunkLoop caching threshold capacity X this (snd p) (Reset c) (fst p)"
          by (auto simp: GetChunkInternal_with_def split: if_splits)
        have "(call_rank m f (snd ?r), call_rank m f (fst p, snd p))
                \<in> less_than <*lex*> less_than <*lex*> less_than <*lex*> less_than"
          using GetChunkLoop_rank[OF slices scan size_Reset loop] False by simp
        then have "(snd ?r, p) \<in> ?R"
          by simp
        then obtain n outs where
          "drain n caching threshold capacity X this (snd (snd ?r)) (fst ?r) (fst (snd ?r))
             = Some outs"
          using less.IH[of "snd ?r"] by blast
        then have "drain (Suc n) caching threshold capacity X this (snd p) c (fst p)
                     = Some (fst ?r # outs)"
          using False by (simp add: drain.simps Let_def)
        then show ?thesis by blast
      qed
    qed
  qed
  from this[of "(st, sink)"] show ?thesis
    by simp
qed

subsection \<open>Two drained runs hold the same rows\<close>

lemma drained_rows_same:
  fixes X :: "('t, 'x, 'v, 'h, 'ss, 'fs) collaborators"
  assumes d1: "drain n1 caching1 threshold1 capacity1 X this sink chunk st = Some outs1"
    and d2: "drain n2 caching2 threshold2 capacity2 X this sink chunk st = Some outs2"
    and cache: "size_chunk (cached_chunk st) = 0" "chunk_wf k (cached_chunk st)"
    and stream: "list_all (\<lambda>b. 0 < size_chunk b) (child_state st)"
    and next_wf: "\<forall>ss keys b. chunk_wf k (fst (Next X ss keys b))"
    and empty_wf: "\<forall>jt hn b. chunk_wf k (ConstructEmptyJoinResult X jt hn b)"
    and table: "ht_count (hash_table sink) \<noteq> 0 \<or>
         (\<forall>b. 0 < size_chunk b \<longrightarrow>
              0 < size_chunk (ConstructEmptyJoinResult X (ht_join_type (hash_table sink))
                                (has_null (hash_table sink)) b))"
  shows "rows_mset outs1 = rows_mset outs2"
proof (cases "ht_count (hash_table sink) \<noteq> 0 \<or>
           (ht_join_type (hash_table sink) \<noteq> INNER \<and> ht_join_type (hash_table sink) \<noteq> SEMI)")
  case False
  then have "outs1 = []" "outs2 = []"
    using drain_shortcut[OF _ _ d1] drain_shortcut[OF _ _ d2] by auto
  then show ?thesis by simp
next
  case True
  note run = True
  have uncoalesced: "\<exists>m outsU. drain m False 0 0 X this sink chunk st = Some outsU \<and>
                       rows_mset outs = rows_mset outsU"
    if "drain n caching threshold capacity X this sink chunk st = Some outs"
    for n caching threshold capacity outs
  proof (cases caching)
    case True
    have d: "drain n True threshold capacity X this sink chunk st = Some outs"
      using that True by simp
    have "\<exists>m outsU. drain m False 0 0 X this sink chunk st = Some outsU \<and>
            rows_mset outs = mset (rows_of (cached_chunk st)) + rows_mset outsU"
      using next_wf[rule_format] empty_wf[rule_format] run table cache(2) stream d
      by (rule coalescing_drain)
    then show ?thesis
      using cache(1) by (simp add: rows_of_empty)
  next
    case False
    have "drain n False threshold capacity X this sink chunk st
            = drain n False 0 0 X this sink chunk st"
      using run by (intro drain_uncached_same_probe) simp_all
    then show ?thesis
      using that False by auto
  qed
  obtain m1 u1 where u1: "drain m1 False 0 0 X this sink chunk st = Some u1"
    "rows_mset outs1 = rows_mset u1"
    using uncoalesced[OF d1] by blast
  obtain m2 u2 where u2: "drain m2 False 0 0 X this sink chunk st = Some u2"
    "rows_mset outs2 = rows_mset u2"
    using uncoalesced[OF d2] by blast
  have "u1 = u2"
    using u1(1) u2(1) by (rule drain_deterministic)
  then show ?thesis
    using u1(2) u2(2) by simp
qed

text \<open>With coalescing, rows of different probe-side batches surface in one output batch: two
  probe-side batches with one match each give one batch of two rows in a build with
  \<^verbatim>\<open>STANDARD_VECTOR_SIZE\<close> 1024, and two batches of one row in a build with 64.\<close>

lemma coalescing_across_batches:
  "fst (GetChunk_calls (Suc (Suc 0)) 1024 (example_collaborators [rows_chunk 1 2])
          (example_join LEFT) (example_sink LEFT 5 []) (rows_chunk 0 0)
          (example_state LEFT [rows_chunk 1 9, rows_chunk 1 8]))
     = [rows_chunk 2 2, rows_chunk 0 0] \<and>
   fst (GetChunk_calls (Suc (Suc (Suc 0))) 64 (example_collaborators [rows_chunk 1 2])
          (example_join LEFT) (example_sink LEFT 5 []) (rows_chunk 0 0)
          (example_state LEFT [rows_chunk 1 9, rows_chunk 1 8]))
     = [rows_chunk 1 2, rows_chunk 1 2, rows_chunk 0 0]"
  apply (rule conjI)
   apply (simp add: example_defs numeral_2_eq_2)
  apply (simp add: example_defs)
  done

section \<open>The constructor\<close>

text \<open>
  \<^bold>\<open>C10\<close>, as stated, fails in a build with \<^verbatim>\<open>NDEBUG\<close>: the assertion is compiled out, and the
  constructor called with the non-empty left projection map \<open>[0]\<close> returns an operator.
\<close>

theorem constructor_left_projection_map_counterexample:
  "PhysicalHashJoin_new True [1::nat, 2] [1] [2] ([] :: (nat, unit) JoinCondition list) INNER
       [0] [0]
     = Inr \<lparr>types = [1, 2], children = [[1], [2]], conditions = [], join_type = INNER,
            right_projection_map = [0], condition_types = [], build_types = [2],
            delim_types = []\<rparr> \<and>
   [0::nat] \<noteq> []"
  by (simp add: PhysicalHashJoin_new_def MapTypes_def Let_def)

text \<open>
  \<^bold>\<open>C10\<close>, amended. In a build without \<^verbatim>\<open>NDEBUG\<close> the constructor called with a non-empty left
  projection map fails the assertion, so whenever it returns an operator the left projection
  map was empty. In a build with \<^verbatim>\<open>NDEBUG\<close> the assertion is not checked and the left projection
  map is ignored: the constructor returns what it returns for an empty one. In either build
  an operator that is returned is the one that either build returns without a left projection
  map, and it keeps the right projection map it was given: only the right side can be
  projected. For callers that pass an empty left projection map the two builds agree.
\<close>

theorem constructor_left_projection_map_empty:
  "(\<not> NDEBUG \<and> left_projection_map \<noteq> [] \<longrightarrow>
      PhysicalHashJoin_new NDEBUG op_types l r cond jt left_projection_map rpm
        = Inl AssertionFailed) \<and>
   (PhysicalHashJoin_new NDEBUG op_types l r cond jt left_projection_map rpm = Inr this \<longrightarrow>
      (\<not> NDEBUG \<longrightarrow> left_projection_map = []) \<and>
      PhysicalHashJoin_new any_build op_types l r cond jt [] rpm = Inr this \<and>
      right_projection_map this = rpm) \<and>
   (NDEBUG \<longrightarrow>
      PhysicalHashJoin_new NDEBUG op_types l r cond jt left_projection_map rpm
        = PhysicalHashJoin_new NDEBUG op_types l r cond jt [] rpm) \<and>
   (left_projection_map = [] \<longrightarrow>
      PhysicalHashJoin_new NDEBUG op_types l r cond jt left_projection_map rpm
        = PhysicalHashJoin_new any_build op_types l r cond jt [] rpm)"
  by (auto simp: PhysicalHashJoin_new_def Let_def split: sum.splits if_splits)

theorem constructor_left_projection_map_empty_witness:
  "PhysicalHashJoin_new False [1::nat, 2] [1] [2] ([] :: (nat, unit) JoinCondition list) INNER
       [0] [0]
     = Inl AssertionFailed \<and>
   PhysicalHashJoin_new False [1::nat, 2] [1] [2] ([] :: (nat, unit) JoinCondition list) INNER
       [] [0]
     = Inr \<lparr>types = [1, 2], children = [[1], [2]], conditions = [], join_type = INNER,
            right_projection_map = [0], condition_types = [], build_types = [2],
            delim_types = []\<rparr> \<and>
   right_projection_map \<lparr>types = [1::nat, 2], children = [[1], [2]],
            conditions = ([] :: (nat, unit) JoinCondition list), join_type = INNER,
            right_projection_map = [0], condition_types = [], build_types = [2],
            delim_types = []\<rparr> = [0]"
  using constructor_left_projection_map_empty
    [of False "[0]" "[1::nat, 2]" "[1]" "[2]" "[] :: (nat, unit) JoinCondition list" INNER "[0]"]
  by (simp add: PhysicalHashJoin_new_def MapTypes_def Let_def)

text \<open>
  \<^bold>\<open>C6\<close>, as stated, fails: an inner join whose right child returns no column, built without a
  projection map, has empty build types although its join type is none of SEMI, ANTI, MARK.
\<close>

theorem build_types_empty_counterexample:
  "PhysicalHashJoin_new False [1::nat] [1] []
      [\<lparr>left = \<lparr>return_type = 1, expr = ()\<rparr>, right = \<lparr>return_type = 1, expr = ()\<rparr>\<rparr>]
      INNER [] []
     = Inr \<lparr>types = [1], children = [[1], []],
            conditions = [\<lparr>left = \<lparr>return_type = 1, expr = ()\<rparr>,
                           right = \<lparr>return_type = 1, expr = ()\<rparr>\<rparr>],
            join_type = INNER,
            right_projection_map = [], condition_types = [1], build_types = [],
            delim_types = []\<rparr> \<and>
   INNER \<notin> {SEMI, ANTI, MARK}"
  by (simp add: PhysicalHashJoin_new_def MapTypes_def Let_def)

text \<open>
  \<^bold>\<open>C6\<close>, amended. After construction the build types are empty when the join type is SEMI,
  ANTI or MARK; for every other join type they are the right child's types mapped through
  the right projection map. Hence, when the right child returns at least one column or a
  right projection map is given, the build types are empty if and only if the join type is
  SEMI, ANTI or MARK.
\<close>

theorem build_types_empty_iff:
  assumes "PhysicalHashJoin_new NDEBUG op_types l r cond jt left_projection_map rpm = Inr this"
  shows "(jt \<in> {SEMI, ANTI, MARK} \<longrightarrow> build_types this = []) \<and>
         (jt \<notin> {SEMI, ANTI, MARK} \<longrightarrow> MapTypes r rpm = Inr (build_types this)) \<and>
         (r \<noteq> [] \<or> rpm \<noteq> [] \<longrightarrow> (build_types this = [] \<longleftrightarrow> jt \<in> {SEMI, ANTI, MARK}))"
  using assms
  by (auto simp: PhysicalHashJoin_new_def MapTypes_def Let_def split: sum.splits if_splits)

theorem build_types_empty_iff_witness:
  "PhysicalHashJoin_new False [1::nat, 2] [1] [2] ([] :: (nat, unit) JoinCondition list) INNER [] [0]
     = Inr \<lparr>types = [1, 2], children = [[1], [2]], conditions = [], join_type = INNER,
            right_projection_map = [0], condition_types = [], build_types = [2],
            delim_types = []\<rparr> \<and>
   INNER \<notin> {SEMI, ANTI, MARK} \<and> MapTypes [2::nat] [0] = Inr [2] \<and> [2::nat] \<noteq> []"
  using build_types_empty_iff
    [of False "[1::nat, 2]" "[1]" "[2]" "[] :: (nat, unit) JoinCondition list" INNER "[]" "[0]"]
  by (simp add: PhysicalHashJoin_new_def MapTypes_def Let_def)

section \<open>Global state\<close>

text \<open>
  \<^bold>\<open>C9\<close>, as stated, fails: a MARK join without correlation columns and with one condition has
  one condition more than correlation columns, and \<open>GetGlobalState\<close> creates no side structure
  for it. The operator is \<open>example_join MARK\<close>, as the constructor returns it.
\<close>

theorem correlated_mark_join_counterexample:
  "join_type (example_join MARK) = MARK \<and>
   length (conditions (example_join MARK)) = length (delim_types (example_join MARK)) + 1 \<and>
   correlated_counts (correlated_mark_join_info (hash_table
       (GetGlobalState example_count_star example_count () ([] :: nat DataChunk list)
          (example_join MARK)
          :: (nat, unit, nat, unit, nat DataChunk list) HashJoinGlobalState)))
     = None"
  by (simp add: GetGlobalState_info example_join_def)

text \<open>
  \<^bold>\<open>C9\<close>, amended. \<open>GetGlobalState\<close> creates the correlated mark-join side structure exactly
  when the join type is MARK, there is at least one correlation column, and there is exactly
  one condition more than correlation columns. The structure is then an aggregation table of
  initial capacity 1024 grouped by the correlation column types, with exactly two aggregates
  in this order, count-star and count, both not distinct; the payload and result batches
  have their two return types and the group batch the correlation column types.
\<close>

theorem correlated_mark_join_setup:
  "(correlated_counts (correlated_mark_join_info (hash_table
       (GetGlobalState CountStarFun CountFun buffers cursor this
          :: ('t, 'x, 'v, 'h, 'fs) HashJoinGlobalState))) \<noteq> None
    \<longleftrightarrow> delim_types this \<noteq> [] \<and> join_type this = MARK \<and>
        length (conditions this) = length (delim_types this) + 1) \<and>
   (delim_types this \<noteq> [] \<and> join_type this = MARK \<and>
    length (conditions this) = length (delim_types this) + 1 \<longrightarrow>
      correlated_mark_join_info (hash_table
        (GetGlobalState CountStarFun CountFun buffers cursor this
           :: ('t, 'x, 'v, 'h, 'fs) HashJoinGlobalState)) =
      \<lparr>correlated_counts =
         Some \<lparr>initial_capacity = 1024, group_types = delim_types this,
               payload_types = [fun_return_type CountStarFun, fun_return_type CountFun],
               aggregates =
                 [\<lparr>aggr_return_type = fun_return_type CountStarFun,
                   aggr_function = CountStarFun, aggr_distinct = False\<rparr>,
                  \<lparr>aggr_return_type = fun_return_type CountFun,
                   aggr_function = CountFun, aggr_distinct = False\<rparr>]\<rparr>,
       correlated_aggregates =
         [\<lparr>aggr_return_type = fun_return_type CountStarFun,
           aggr_function = CountStarFun, aggr_distinct = False\<rparr>,
          \<lparr>aggr_return_type = fun_return_type CountFun,
           aggr_function = CountFun, aggr_distinct = False\<rparr>],
       correlated_types = delim_types this,
       group_chunk = Initialize (delim_types this),
       payload_chunk = Initialize [fun_return_type CountStarFun, fun_return_type CountFun],
       result_chunk = Initialize [fun_return_type CountStarFun, fun_return_type CountFun]\<rparr>)"
  by (simp add: GetGlobalState_info)

theorem correlated_mark_join_setup_witness:
  "delim_types example_correlated_mark_join \<noteq> [] \<and>
   join_type example_correlated_mark_join = MARK \<and>
   length (conditions example_correlated_mark_join)
     = length (delim_types example_correlated_mark_join) + 1 \<and>
   correlated_counts (correlated_mark_join_info (hash_table
       (GetGlobalState example_count_star example_count () ([] :: nat DataChunk list)
          example_correlated_mark_join
          :: (nat, unit, nat, unit, nat DataChunk list) HashJoinGlobalState)))
     = Some \<lparr>initial_capacity = 1024, group_types = [0], payload_types = [1, 1],
             aggregates =
               [\<lparr>aggr_return_type = 1, aggr_function = example_count_star,
                 aggr_distinct = False\<rparr>,
                \<lparr>aggr_return_type = 1, aggr_function = example_count,
                 aggr_distinct = False\<rparr>]\<rparr>"
  using correlated_mark_join_setup
    [of example_count_star example_count "()" "[] :: nat DataChunk list"
        example_correlated_mark_join,
     where ?'v = nat]
  by (simp add: example_correlated_mark_join_def example_join_def example_count_star_def
        example_count_def)

section \<open>Sink\<close>




section \<open>The empty-build shortcut\<close>

text \<open>
  \<^bold>\<open>C1.\<close> For an operator of join type INNER or SEMI whose hash table (carrying the operator's
  join type, as \<open>GetGlobalState\<close> creates it) holds no rows, every one of any number of
  successive calls returns the empty output batch and leaves the probe state and the global
  state as they were: the probe-side child is never called and its stream is untouched.
\<close>

theorem empty_build_shortcut:
  assumes "join_type this = INNER \<or> join_type this = SEMI"
    and "ht_join_type (hash_table sink) = join_type this"
    and "ht_count (hash_table sink) = 0"
  shows "GetChunk_calls n STANDARD_VECTOR_SIZE X this sink chunk st
           = (replicate n (Reset chunk), st, sink) \<and>
         size_chunk (Reset chunk) = 0 \<and>
         child_calls (fst (snd (GetChunk_calls n STANDARD_VECTOR_SIZE X this sink chunk st)))
           = child_calls st \<and>
         child_state (fst (snd (GetChunk_calls n STANDARD_VECTOR_SIZE X this sink chunk st)))
           = child_state st"
proof -
  have one: "GetChunk STANDARD_VECTOR_SIZE X this sink c st = (Reset c, st, sink)" for c
    using assms by (auto simp: GetChunk_def GetChunkInternal_def)
  have all: "GetChunk_calls n STANDARD_VECTOR_SIZE X this sink c st
               = (replicate n (Reset c), st, sink)" for c
    by (induction n arbitrary: c) (simp_all add: one Let_def)
  show ?thesis
    by (simp add: all)
qed

theorem empty_build_shortcut_witness:
  "join_type (example_join SEMI) = SEMI \<and>
   ht_join_type (hash_table (example_sink SEMI 0 [])) = join_type (example_join SEMI) \<and>
   ht_count (hash_table (example_sink SEMI 0 [])) = 0 \<and>
   GetChunk_calls (Suc (Suc 0)) 1024 (example_collaborators [rows_chunk 1 2]) (example_join SEMI)
       (example_sink SEMI 0 []) (rows_chunk 0 0) (example_state SEMI [rows_chunk 1 9])
     = ([rows_chunk 0 0, rows_chunk 0 0], example_state SEMI [rows_chunk 1 9],
        example_sink SEMI 0 []) \<and>
   child_calls (example_state SEMI [rows_chunk 1 9]) = 0"
  using empty_build_shortcut
    [of "example_join SEMI" "example_sink SEMI 0 []" "Suc (Suc 0)" 1024
        "example_collaborators [rows_chunk 1 2]" "rows_chunk 0 0"
        "example_state SEMI [rows_chunk 1 9]"]
  by (simp add: example_join_def example_sink_def JoinHashTable_new_def rows_chunk_def Reset_def
        example_state_def GetOperatorState_def)

section \<open>Coalescing of small batches\<close>

text \<open>
  \<^bold>\<open>C3\<close>, as stated, fails in a build with \<^verbatim>\<open>STANDARD_VECTOR_SIZE\<close> below 128, here 96, where
  the preprocessor leaves the coalescing out. The probe yields a slice of one row and then a
  slice of 64 rows. The first slice has fewer than 64 rows, and the cache with it would hold
  fewer than \<^verbatim>\<open>STANDARD_VECTOR_SIZE - 64\<close> rows, so the claim has it appended to the cache and
  the loop continue; the code returns it at once and leaves the cache empty. The policy as
  the claim states it (coalescing with threshold 64 and capacity 96 - 64) returns the second
  slice instead.
\<close>

theorem coalescing_policy_counterexample:
  "fst (ProbeHashTable (example_collaborators [rows_chunk 1 2, rows_chunk 64 3])
          (example_sink LEFT 5 []) (rows_chunk 0 0) (example_state LEFT [rows_chunk 1 9]))
     = rows_chunk 1 2 \<and>
   0 < size_chunk (rows_chunk 1 2) \<and> size_chunk (rows_chunk 1 2) < 64 \<and>
   size_chunk (Append (cached_chunk (example_state LEFT [rows_chunk 1 9])) (rows_chunk 1 2))
     < 96 - 64 \<and>
   GetChunkInternal 96 (example_collaborators [rows_chunk 1 2, rows_chunk 64 3])
       (example_join LEFT) (example_sink LEFT 5 []) (rows_chunk 0 0)
       (example_state LEFT [rows_chunk 1 9])
     = (rows_chunk 1 2,
        snd (ProbeHashTable (example_collaborators [rows_chunk 1 2, rows_chunk 64 3])
               (example_sink LEFT 5 []) (rows_chunk 0 0) (example_state LEFT [rows_chunk 1 9])),
        example_sink LEFT 5 []) \<and>
   size_chunk (cached_chunk
      (snd (ProbeHashTable (example_collaborators [rows_chunk 1 2, rows_chunk 64 3])
               (example_sink LEFT 5 []) (rows_chunk 0 0)
               (example_state LEFT [rows_chunk 1 9])))) = 0 \<and>
   fst (GetChunkInternal_with True 64 (96 - 64)
          (example_collaborators [rows_chunk 1 2, rows_chunk 64 3])
          (example_join LEFT) (example_sink LEFT 5 []) (rows_chunk 0 0)
          (example_state LEFT [rows_chunk 1 9]))
     = rows_chunk 64 3"
  apply (intro conjI)
        apply (simp add: example_defs)
       apply (simp add: rows_chunk_def size_chunk_def)
      apply (simp add: rows_chunk_def size_chunk_def)
     apply (simp add: example_defs)
    apply (simp add: example_defs)
   apply (simp add: example_defs)
  apply (simp add: GetChunkInternal_with_def example_defs)
  done

text \<open>
  \<^bold>\<open>C3\<close>, amended. The shortcut for an empty table does not apply, and \<open>slice\<close> is what
  \<open>ProbeHashTable\<close> produces.

  In a build with \<^verbatim>\<open>STANDARD_VECTOR_SIZE\<close> of at least 128, with a cache that holds fewer than
  \<^verbatim>\<open>STANDARD_VECTOR_SIZE - 64\<close> rows on entry: a non-empty slice of fewer than 64 rows is
  appended to the cache; if the cache then holds fewer than \<^verbatim>\<open>STANDARD_VECTOR_SIZE - 64\<close> rows
  the loop goes on from that state, otherwise the cache is returned and cleared, holding fewer
  than \<^verbatim>\<open>STANDARD_VECTOR_SIZE\<close> rows. A slice of at least 64 rows is returned at once and the
  cache is left as it was. An empty slice makes the call return and clear a non-empty cache;
  with an empty cache the result is the full-outer scan's or the empty slice, never the cache.
  After the call the cache again holds fewer than \<^verbatim>\<open>STANDARD_VECTOR_SIZE - 64\<close> rows.

  In a build with \<^verbatim>\<open>STANDARD_VECTOR_SIZE\<close> below 128 there is no coalescing: every non-empty
  slice is returned at once, an empty slice gives the full-outer scan's result or the empty
  slice, and the cache is never touched.
\<close>

theorem coalescing_policy:
  assumes run: "ht_count (hash_table sink) \<noteq> 0 \<or>
              (ht_join_type (hash_table sink) \<noteq> INNER \<and> ht_join_type (hash_table sink) \<noteq> SEMI)"
    and inv: "128 \<le> STANDARD_VECTOR_SIZE \<longrightarrow>
              size_chunk (cached_chunk st) < STANDARD_VECTOR_SIZE - 64"
    and probe: "ProbeHashTable X sink chunk st = (slice, st1)"
  shows "(128 \<le> STANDARD_VECTOR_SIZE \<longrightarrow>
         (0 < size_chunk slice \<and> size_chunk slice < 64 \<and>
          size_chunk (Append (cached_chunk st) slice) < STANDARD_VECTOR_SIZE - 64 \<longrightarrow>
            GetChunkInternal STANDARD_VECTOR_SIZE X this sink chunk st =
            GetChunkInternal STANDARD_VECTOR_SIZE X this sink (Reset slice)
              (st1\<lparr>cached_chunk := Append (cached_chunk st) slice\<rparr>)) \<and>
         (0 < size_chunk slice \<and> size_chunk slice < 64 \<and>
          STANDARD_VECTOR_SIZE - 64 \<le> size_chunk (Append (cached_chunk st) slice) \<longrightarrow>
            GetChunkInternal STANDARD_VECTOR_SIZE X this sink chunk st =
              (Append (cached_chunk st) slice,
               st1\<lparr>cached_chunk := Reset (Append (cached_chunk st) slice)\<rparr>, sink) \<and>
            size_chunk (Append (cached_chunk st) slice) < STANDARD_VECTOR_SIZE) \<and>
         (64 \<le> size_chunk slice \<longrightarrow>
            GetChunkInternal STANDARD_VECTOR_SIZE X this sink chunk st = (slice, st1, sink) \<and>
            cached_chunk st1 = cached_chunk st) \<and>
         (size_chunk slice = 0 \<and> 0 < size_chunk (cached_chunk st) \<longrightarrow>
            GetChunkInternal STANDARD_VECTOR_SIZE X this sink chunk st =
              (cached_chunk st, st1\<lparr>cached_chunk := Reset (cached_chunk st)\<rparr>, sink)) \<and>
         (size_chunk slice = 0 \<and> size_chunk (cached_chunk st) = 0 \<longrightarrow>
            GetChunkInternal STANDARD_VECTOR_SIZE X this sink chunk st =
              (if join_type this = OUTER
               then (fst (ScanFullOuter X (hash_table sink) (ht_scan_state sink)), st1,
                     sink\<lparr>ht_scan_state :=
                            snd (ScanFullOuter X (hash_table sink) (ht_scan_state sink))\<rparr>)
               else (slice, st1, sink))) \<and>
         size_chunk (cached_chunk (fst (snd
            (GetChunkInternal STANDARD_VECTOR_SIZE X this sink chunk st))))
           < STANDARD_VECTOR_SIZE - 64) \<and>
        (STANDARD_VECTOR_SIZE < 128 \<longrightarrow>
         (0 < size_chunk slice \<longrightarrow>
            GetChunkInternal STANDARD_VECTOR_SIZE X this sink chunk st = (slice, st1, sink)) \<and>
         (size_chunk slice = 0 \<longrightarrow>
            GetChunkInternal STANDARD_VECTOR_SIZE X this sink chunk st =
              (if join_type this = OUTER
               then (fst (ScanFullOuter X (hash_table sink) (ht_scan_state sink)), st1,
                     sink\<lparr>ht_scan_state :=
                            snd (ScanFullOuter X (hash_table sink) (ht_scan_state sink))\<rparr>)
               else (slice, st1, sink))) \<and>
         cached_chunk (fst (snd (GetChunkInternal STANDARD_VECTOR_SIZE X this sink chunk st)))
           = cached_chunk st)"
proof (cases "128 \<le> STANDARD_VECTOR_SIZE")
  case svs: True
  have inv': "size_chunk (cached_chunk st) < STANDARD_VECTOR_SIZE - 64"
    using inv svs by simp
  have unchanged: "cached_chunk st1 = cached_chunk st"
    using ProbeHashTable_cached[of X sink chunk st] probe by simp
  have loop: "GetChunkInternal STANDARD_VECTOR_SIZE X this sink c s =
              GetChunkLoop True 64 (STANDARD_VECTOR_SIZE - 64) X this sink c s" for c s
    using svs run by (auto simp: GetChunkInternal_def)
  have small: "size_chunk (Append (cached_chunk st) slice) < STANDARD_VECTOR_SIZE"
    if "0 < size_chunk slice" "size_chunk slice < 64"
    using that inv' svs by (simp add: Append_def size_chunk_def)
  have bound: "size_chunk (cached_chunk (fst (snd
            (GetChunkLoop True 64 (STANDARD_VECTOR_SIZE - 64) X this sink chunk st))))
           < STANDARD_VECTOR_SIZE - 64"
    using inv' by (rule GetChunkLoop_cache_bound)
  have step: "GetChunkLoop True 64 (STANDARD_VECTOR_SIZE - 64) X this sink chunk st =
     (if size_chunk slice = 0
         then if 0 < size_chunk (cached_chunk st)
              then (cached_chunk st, st1\<lparr>cached_chunk := Reset (cached_chunk st)\<rparr>, sink)
              else if join_type this = OUTER
              then (fst (ScanFullOuter X (hash_table sink) (ht_scan_state sink)), st1,
                    sink\<lparr>ht_scan_state := snd (ScanFullOuter X (hash_table sink) (ht_scan_state sink))\<rparr>)
              else (slice, st1, sink)
         else if size_chunk slice < 64
         then if STANDARD_VECTOR_SIZE - 64 \<le> size_chunk (Append (cached_chunk st) slice)
              then (Append (cached_chunk st) slice,
                    st1\<lparr>cached_chunk := Reset (Append (cached_chunk st) slice)\<rparr>, sink)
              else GetChunkLoop True 64 (STANDARD_VECTOR_SIZE - 64) X this sink (Reset slice)
                     (st1\<lparr>cached_chunk := Append (cached_chunk st) slice\<rparr>)
         else (slice, st1, sink))"
    by (subst GetChunkLoop_unfold) (simp add: probe Let_def)
  show ?thesis
    unfolding loop using svs step small bound unchanged by simp
next
  case False
  have unchanged: "cached_chunk st1 = cached_chunk st"
    using ProbeHashTable_cached[of X sink chunk st] probe by simp
  have "GetChunkInternal STANDARD_VECTOR_SIZE X this sink chunk st =
        GetChunkLoop False 64 (STANDARD_VECTOR_SIZE - 64) X this sink chunk st"
    using False run by (auto simp: GetChunkInternal_def)
  also have "\<dots> =
     (if size_chunk slice = 0
      then if join_type this = OUTER
           then (fst (ScanFullOuter X (hash_table sink) (ht_scan_state sink)), st1,
                 sink\<lparr>ht_scan_state := snd (ScanFullOuter X (hash_table sink) (ht_scan_state sink))\<rparr>)
           else (slice, st1, sink)
      else (slice, st1, sink))"
    by (subst GetChunkLoop_unfold) (simp add: probe Let_def)
  finally show ?thesis
    using False unchanged by simp
qed


theorem coalescing_policy_witness:
  "(128::nat) \<le> 1024 \<and>
   ht_count (hash_table (example_sink LEFT 5 [])) \<noteq> 0 \<and>
   size_chunk (cached_chunk (example_state LEFT [rows_chunk 1 9])) < 1024 - 64 \<and>
   fst (ProbeHashTable (example_collaborators [rows_chunk 1 2]) (example_sink LEFT 5 [])
          (rows_chunk 0 0) (example_state LEFT [rows_chunk 1 9])) = rows_chunk 1 2 \<and>
   GetChunkInternal 1024 (example_collaborators [rows_chunk 1 2]) (example_join LEFT)
       (example_sink LEFT 5 []) (rows_chunk 0 0) (example_state LEFT [rows_chunk 1 9])
     = GetChunkInternal 1024 (example_collaborators [rows_chunk 1 2]) (example_join LEFT)
         (example_sink LEFT 5 []) (Reset (rows_chunk 1 2))
         ((snd (ProbeHashTable (example_collaborators [rows_chunk 1 2]) (example_sink LEFT 5 [])
                  (rows_chunk 0 0) (example_state LEFT [rows_chunk 1 9])))
            \<lparr>cached_chunk := rows_chunk 1 2\<rparr>) \<and>
   size_chunk (cached_chunk (fst (snd
      (GetChunkInternal 1024 (example_collaborators [rows_chunk 1 2]) (example_join LEFT)
         (example_sink LEFT 5 []) (rows_chunk 0 0) (example_state LEFT [rows_chunk 1 9])))))
     < 1024 - 64"
  using coalescing_policy
    [where STANDARD_VECTOR_SIZE = 1024 and sink = "example_sink LEFT 5 []"
       and st = "example_state LEFT [rows_chunk 1 9]"
       and X = "example_collaborators [rows_chunk 1 2]" and chunk = "rows_chunk 0 0"
       and slice = "fst (ProbeHashTable (example_collaborators [rows_chunk 1 2])
                      (example_sink LEFT 5 []) (rows_chunk 0 0)
                      (example_state LEFT [rows_chunk 1 9]))"
       and ?st1.0 = "snd (ProbeHashTable (example_collaborators [rows_chunk 1 2])
                      (example_sink LEFT 5 []) (rows_chunk 0 0)
                      (example_state LEFT [rows_chunk 1 9]))"
       and this = "example_join LEFT"]
  by (simp add: example_defs)

section \<open>Resuming a scan structure\<close>

text \<open>
  \<^bold>\<open>C4\<close>, as stated, fails. A probe-side batch whose probe yields slices of 64 rows, 1 row and
  64 rows: the first call returns the first slice and leaves the scan structure live. The
  second call resumes it and gets the non-empty slice of one row; it does not return that
  slice but appends it to the cache, resumes again and returns the third slice.
\<close>

theorem resumed_slice_counterexample:
  "scan_structure (example_after_first_call [rows_chunk 64 1, rows_chunk 1 2, rows_chunk 64 3])
     = Some [rows_chunk 1 2, rows_chunk 64 3] \<and>
   0 < size_chunk (child_chunk
         (example_after_first_call [rows_chunk 64 1, rows_chunk 1 2, rows_chunk 64 3])) \<and>
   fst (Next (example_collaborators [rows_chunk 64 1, rows_chunk 1 2, rows_chunk 64 3])
          [rows_chunk 1 2, rows_chunk 64 3]
          (join_keys (example_after_first_call [rows_chunk 64 1, rows_chunk 1 2, rows_chunk 64 3]))
          (child_chunk (example_after_first_call [rows_chunk 64 1, rows_chunk 1 2, rows_chunk 64 3])))
     = rows_chunk 1 2 \<and>
   0 < size_chunk (rows_chunk 1 2) \<and>
   fst (GetChunk 1024 (example_collaborators [rows_chunk 64 1, rows_chunk 1 2, rows_chunk 64 3])
          (example_join LEFT) (example_sink LEFT 5 []) (rows_chunk 0 0)
          (example_after_first_call [rows_chunk 64 1, rows_chunk 1 2, rows_chunk 64 3]))
     = rows_chunk 64 3 \<and>
   rows_chunk 64 3 \<noteq> rows_chunk 1 2 \<and>
   cached_chunk (fst (snd
      (GetChunk 1024 (example_collaborators [rows_chunk 64 1, rows_chunk 1 2, rows_chunk 64 3])
          (example_join LEFT) (example_sink LEFT 5 []) (rows_chunk 0 0)
          (example_after_first_call [rows_chunk 64 1, rows_chunk 1 2, rows_chunk 64 3]))))
     = rows_chunk 1 2"
  apply (simp only: example_after_first_call_large)
  apply (intro conjI)
        apply (simp add: example_defs)
       apply (simp add: example_defs)
      apply (simp add: example_defs)
     apply (simp add: example_defs)
    apply (simp add: example_defs)
   apply (simp add: rows_chunk_def)
  apply (simp add: example_defs)
  done

text \<open>
  \<^bold>\<open>C4\<close>, amended. When a live scan structure is resumed and yields a non-empty slice,
  \<open>ProbeHashTable\<close> returns that slice unchanged, without fetching from the child, and keeps the
  advanced structure. \<open>GetChunkInternal\<close> then treats the slice like any other: it returns it
  unchanged when the build has no coalescing (\<^verbatim>\<open>STANDARD_VECTOR_SIZE\<close> below 128) or the slice
  has at least 64 rows; a smaller slice is appended to the cache, which is returned and
  cleared if it then holds at least \<^verbatim>\<open>STANDARD_VECTOR_SIZE - 64\<close> rows, and otherwise the loop
  goes on from the state holding the enlarged cache.
\<close>

theorem resumed_slice_is_coalesced:
  assumes live: "scan_structure st = Some ss" "0 < size_chunk (child_chunk st)"
    and resume: "Next X ss (join_keys st) (child_chunk st) = (slice, ss')"
    and nonempty: "0 < size_chunk slice"
    and run: "ht_count (hash_table sink) \<noteq> 0 \<or>
              (ht_join_type (hash_table sink) \<noteq> INNER \<and> ht_join_type (hash_table sink) \<noteq> SEMI)"
  shows "ProbeHashTable X sink chunk st = (slice, st\<lparr>scan_structure := Some ss'\<rparr>) \<and>
         (STANDARD_VECTOR_SIZE < 128 \<or> 64 \<le> size_chunk slice \<longrightarrow>
            GetChunkInternal STANDARD_VECTOR_SIZE X this sink chunk st =
              (slice, st\<lparr>scan_structure := Some ss'\<rparr>, sink)) \<and>
         (128 \<le> STANDARD_VECTOR_SIZE \<and> size_chunk slice < 64 \<and>
          STANDARD_VECTOR_SIZE - 64 \<le> size_chunk (Append (cached_chunk st) slice) \<longrightarrow>
            GetChunkInternal STANDARD_VECTOR_SIZE X this sink chunk st =
              (Append (cached_chunk st) slice,
               st\<lparr>scan_structure := Some ss',
                  cached_chunk := Reset (Append (cached_chunk st) slice)\<rparr>, sink)) \<and>
         (128 \<le> STANDARD_VECTOR_SIZE \<and> size_chunk slice < 64 \<and>
          size_chunk (Append (cached_chunk st) slice) < STANDARD_VECTOR_SIZE - 64 \<longrightarrow>
            GetChunkInternal STANDARD_VECTOR_SIZE X this sink chunk st =
            GetChunkInternal STANDARD_VECTOR_SIZE X this sink (Reset slice)
              (st\<lparr>scan_structure := Some ss',
                  cached_chunk := Append (cached_chunk st) slice\<rparr>))"
proof -
  have probe: "ProbeHashTable X sink chunk st = (slice, st\<lparr>scan_structure := Some ss'\<rparr>)"
    using ProbeHashTable_resume[OF live resume] nonempty by simp
  have step: "GetChunkLoop b 64 capacity X this sink chunk st =
     (if b \<and> size_chunk slice < 64
      then if capacity \<le> size_chunk (Append (cached_chunk st) slice)
           then (Append (cached_chunk st) slice,
                 st\<lparr>scan_structure := Some ss',
                    cached_chunk := Reset (Append (cached_chunk st) slice)\<rparr>, sink)
           else GetChunkLoop b 64 capacity X this sink (Reset slice)
                  (st\<lparr>scan_structure := Some ss',
                      cached_chunk := Append (cached_chunk st) slice\<rparr>)
      else (slice, st\<lparr>scan_structure := Some ss'\<rparr>, sink))" for b capacity
    using nonempty by (subst GetChunkLoop_unfold) (simp add: probe Let_def)
  show ?thesis
  proof (cases "128 \<le> STANDARD_VECTOR_SIZE")
    case True
    have loop: "GetChunkInternal STANDARD_VECTOR_SIZE X this sink c s =
                GetChunkLoop True 64 (STANDARD_VECTOR_SIZE - 64) X this sink c s" for c s
      using run True by (auto simp: GetChunkInternal_def)
    show ?thesis
      unfolding loop using True probe step[of True "STANDARD_VECTOR_SIZE - 64"] by simp
  next
    case False
    have loop: "GetChunkInternal STANDARD_VECTOR_SIZE X this sink c s =
                GetChunkLoop False 64 (STANDARD_VECTOR_SIZE - 64) X this sink c s" for c s
      using run False by (auto simp: GetChunkInternal_def)
    show ?thesis
      unfolding loop using False probe step[of False "STANDARD_VECTOR_SIZE - 64"] by simp
  qed
qed

theorem resumed_slice_is_coalesced_witness:
  "scan_structure (example_after_first_call [rows_chunk 64 1, rows_chunk 1 2, rows_chunk 64 3])
     = Some [rows_chunk 1 2, rows_chunk 64 3] \<and>
   0 < size_chunk (child_chunk
         (example_after_first_call [rows_chunk 64 1, rows_chunk 1 2, rows_chunk 64 3])) \<and>
   Next (example_collaborators [rows_chunk 64 1, rows_chunk 1 2, rows_chunk 64 3])
      [rows_chunk 1 2, rows_chunk 64 3]
      (join_keys (example_after_first_call [rows_chunk 64 1, rows_chunk 1 2, rows_chunk 64 3]))
      (child_chunk (example_after_first_call [rows_chunk 64 1, rows_chunk 1 2, rows_chunk 64 3]))
     = (rows_chunk 1 2, [rows_chunk 64 3]) \<and>
   0 < size_chunk (rows_chunk 1 2) \<and>
   ht_count (hash_table (example_sink LEFT 5 [])) \<noteq> 0 \<and>
   ProbeHashTable (example_collaborators [rows_chunk 64 1, rows_chunk 1 2, rows_chunk 64 3])
      (example_sink LEFT 5 []) (rows_chunk 0 0)
      (example_after_first_call [rows_chunk 64 1, rows_chunk 1 2, rows_chunk 64 3])
     = (rows_chunk 1 2,
        (example_after_first_call [rows_chunk 64 1, rows_chunk 1 2, rows_chunk 64 3])
          \<lparr>scan_structure := Some [rows_chunk 64 3]\<rparr>)"
proof -
  let ?X = "example_collaborators [rows_chunk 64 1, rows_chunk 1 2, rows_chunk 64 3]"
  let ?st = "example_after_first_call [rows_chunk 64 1, rows_chunk 1 2, rows_chunk 64 3]"
  have live: "scan_structure ?st = Some [rows_chunk 1 2, rows_chunk 64 3]"
    by (simp add: example_after_first_call_large)
  have batch: "0 < size_chunk (child_chunk ?st)"
    by (simp only: example_after_first_call_large) (simp add: rows_chunk_def size_chunk_def)
  have resume: "Next ?X [rows_chunk 1 2, rows_chunk 64 3] (join_keys ?st) (child_chunk ?st)
                  = (rows_chunk 1 2, [rows_chunk 64 3])"
    by (simp add: example_collaborators_def)
  have nonempty: "0 < size_chunk (rows_chunk 1 2)"
    by (simp add: rows_chunk_def size_chunk_def)
  have run: "ht_count (hash_table (example_sink LEFT 5 [])) \<noteq> 0"
    by (simp add: example_sink_def)
  have run': "ht_count (hash_table (example_sink LEFT 5 [])) \<noteq> 0 \<or>
              (ht_join_type (hash_table (example_sink LEFT 5 [])) \<noteq> INNER \<and>
               ht_join_type (hash_table (example_sink LEFT 5 [])) \<noteq> SEMI)"
    using run by simp
  have "ProbeHashTable ?X (example_sink LEFT 5 []) (rows_chunk 0 0) ?st
          = (rows_chunk 1 2, ?st\<lparr>scan_structure := Some [rows_chunk 64 3]\<rparr>)"
    using resumed_slice_is_coalesced[OF live batch resume nonempty run', of "rows_chunk 0 0" 1024
            "example_join LEFT"]
    by blast
  then show ?thesis
    using live batch resume nonempty run by blast
qed

text \<open>
  \<^bold>\<open>C7\<close>, as stated, fails. A probe-side batch whose probe yields one slice of 64 rows: the first
  call returns all of them. Between the first and the second call the scan structure pointer
  is non-null, the batch it belongs to is the most recently fetched one, and no match remains:
  the structure's next slice is empty.
\<close>

theorem scan_structure_live_counterexample:
  "fst (GetChunk 1024 (example_collaborators [rows_chunk 64 1]) (example_join LEFT)
          (example_sink LEFT 5 []) (rows_chunk 0 0) (example_state LEFT [rows_chunk 1 9]))
     = rows_chunk 64 1 \<and>
   scan_structure (example_after_first_call [rows_chunk 64 1]) = Some [] \<and>
   child_chunk (example_after_first_call [rows_chunk 64 1]) = rows_chunk 1 9 \<and>
   size_chunk (fst (Next (example_collaborators [rows_chunk 64 1]) []
                      (join_keys (example_after_first_call [rows_chunk 64 1]))
                      (child_chunk (example_after_first_call [rows_chunk 64 1])))) = 0"
  apply (simp only: example_after_first_call_large)
  apply (intro conjI)
     apply (simp add: example_defs)
    apply simp
   apply simp
  apply (simp add: example_collaborators_def rows_chunk_def size_chunk_def)
  done

text \<open>
  \<^bold>\<open>C7\<close>, amended. A non-null pointer does not say that matches remain; what holds is the reset:
  when a resume yields an empty slice, \<open>ProbeHashTable\<close> sets the pointer to null before it
  fetches the next probe-side batch and goes on as the fetch loop from that state. When it
  then returns, the pointer is null exactly if no batch was probed since: no batch was left in
  the stream when the resume came back empty, or the next batch is empty, or the table is
  empty. Otherwise it is the structure created by probing one of the batches fetched since
  (after its first slice), and when the probe-side batch held on return is not empty it is the
  structure of that batch. So the pointer is also non-null on return when the batches probed
  had no match and the stream ended after them.
\<close>

theorem scan_structure_reset_on_empty_resume:
  assumes live: "scan_structure st = Some ss" "0 < size_chunk (child_chunk st)"
    and empty: "size_chunk (fst (Next X ss (join_keys st) (child_chunk st))) = 0"
  shows "ProbeHashTable X sink chunk st =
           probe_loop X sink (fst (Next X ss (join_keys st) (child_chunk st)))
             (st\<lparr>scan_structure := None\<rparr>) \<and>
         (scan_structure (snd (ProbeHashTable X sink chunk st)) = None \<or>
          (\<exists>c\<in>set (child_state st).
             scan_structure (snd (ProbeHashTable X sink chunk st))
               = Some (probed_structure X sink st c))) \<and>
         (scan_structure (snd (ProbeHashTable X sink chunk st)) = None \<longleftrightarrow>
            child_state st = [] \<or> ht_count (hash_table sink) = 0 \<or>
            size_chunk (hd (child_state st)) = 0) \<and>
         (ht_count (hash_table sink) \<noteq> 0 \<and>
          0 < size_chunk (child_chunk (snd (ProbeHashTable X sink chunk st))) \<longrightarrow>
            scan_structure (snd (ProbeHashTable X sink chunk st))
              = Some (probed_structure X sink st
                        (child_chunk (snd (ProbeHashTable X sink chunk st)))))"
proof -
  let ?slice = "fst (Next X ss (join_keys st) (child_chunk st))"
  let ?st0 = "st\<lparr>scan_structure := None\<rparr>"
  have eq: "ProbeHashTable X sink chunk st = probe_loop X sink ?slice ?st0"
    using ProbeHashTable_resume[OF live, of X ?slice "snd (Next X ss (join_keys st) (child_chunk st))"]
      empty by simp
  have same: "probed_structure X sink ?st0 c = probed_structure X sink st c" for c
    by (simp add: probed_structure_def)
  have fresh: "scan_structure (snd (probe_loop X sink ?slice ?st0)) = None \<or>
        (\<exists>c\<in>set (child_state st).
           scan_structure (snd (probe_loop X sink ?slice ?st0)) = Some (probed_structure X sink st c))"
    using probe_loop_scan[of X sink ?slice ?st0] by (simp add: same)
  have null: "scan_structure (snd (probe_loop X sink ?slice ?st0)) = None \<longleftrightarrow>
            child_state st = [] \<or> ht_count (hash_table sink) = 0 \<or>
            size_chunk (hd (child_state st)) = 0"
    using probe_loop_null_iff[of ?st0 X sink ?slice] by simp
  have current: "scan_structure (snd (probe_loop X sink ?slice ?st0))
              = Some (probed_structure X sink st (child_chunk (snd (probe_loop X sink ?slice ?st0))))"
    if "ht_count (hash_table sink) \<noteq> 0"
       "0 < size_chunk (child_chunk (snd (probe_loop X sink ?slice ?st0)))"
    using probe_loop_current[OF that] by (simp add: same)
  show ?thesis
    unfolding eq using fresh null current by blast
qed

theorem scan_structure_reset_on_empty_resume_witness:
  "scan_structure (example_after_first_call [rows_chunk 64 1]) = Some [] \<and>
   0 < size_chunk (child_chunk (example_after_first_call [rows_chunk 64 1])) \<and>
   size_chunk (fst (Next (example_collaborators [rows_chunk 64 1]) []
                      (join_keys (example_after_first_call [rows_chunk 64 1]))
                      (child_chunk (example_after_first_call [rows_chunk 64 1])))) = 0 \<and>
   child_state (example_after_first_call [rows_chunk 64 1]) = [] \<and>
   scan_structure (snd (ProbeHashTable (example_collaborators [rows_chunk 64 1])
                          (example_sink LEFT 5 []) (rows_chunk 0 0)
                          (example_after_first_call [rows_chunk 64 1]))) = None"
proof -
  let ?X = "example_collaborators [rows_chunk 64 1]"
  let ?st = "example_after_first_call [rows_chunk 64 1]"
  have live: "scan_structure ?st = Some []"
    by (simp add: example_after_first_call_large)
  have batch: "0 < size_chunk (child_chunk ?st)"
    by (simp only: example_after_first_call_large) (simp add: rows_chunk_def size_chunk_def)
  have empty: "size_chunk (fst (Next ?X [] (join_keys ?st) (child_chunk ?st))) = 0"
    by (simp add: example_collaborators_def rows_chunk_def size_chunk_def)
  have exhausted: "child_state ?st = []"
    by (simp only: example_after_first_call_large) (simp add: example_state_def GetOperatorState_def)
  have "scan_structure (snd (ProbeHashTable ?X (example_sink LEFT 5 []) (rows_chunk 0 0) ?st))
          = None"
    using scan_structure_reset_on_empty_resume[OF live batch empty,
            of "example_sink LEFT 5 []" "rows_chunk 0 0"] exhausted
    by blast
  then show ?thesis
    using live batch empty exhausted by blast
qed

section \<open>The end of the probe side\<close>

text \<open>
  \<^bold>\<open>C5.\<close> One call probes in the state it is called in and, after every small slice that it
  caches without returning, in the state it goes on from (\<open>loop_reaches\<close>); the probe-side
  child yields no more rows when such a probe finds the child's stream at its end
  (\<open>probe_meets_end\<close>). The call is any call for which the shortcut for an empty table does
  not apply, from a state whose cache holds rows only in a build with coalescing, and \<open>s\<close>
  is the state of it in which the probe finds the end. If the cache holds rows in \<open>s\<close>, the
  call returns the cache and clears it, leaving the scan cursor alone; with an empty cache a
  full outer join returns the next slice of \<open>ScanFullOuter\<close> and advances the shared cursor,
  and any other join type returns an empty batch. After the call the probe side is done and
  the cache is empty. So \<open>Suc n\<close> calls return the cache, when it holds rows, and then the
  first \<open>n\<close> slices of the scan for a full outer join and \<open>n\<close> empty batches otherwise;
  with an empty cache \<open>n\<close> calls return the first \<open>n\<close> slices of the scan for a full outer
  join and \<open>n\<close> empty batches otherwise; and when the scan stays empty once it is empty (its
  contract), all batches after the first empty one are empty. Every call that leaves the
  child at the end of its stream is such a call.
\<close>

theorem end_of_probe_side:
  fixes X :: "('t, 'x, 'v, 'h, 'ss, 'fs) collaborators"
  assumes run: "ht_count (hash_table sink) \<noteq> 0 \<or>
              (ht_join_type (hash_table sink) \<noteq> INNER \<and> ht_join_type (hash_table sink) \<noteq> SEMI)"
    and cache: "0 < size_chunk (cached_chunk st) \<longrightarrow> 128 \<le> STANDARD_VECTOR_SIZE"
  shows "(\<forall>s. loop_reaches (128 \<le> STANDARD_VECTOR_SIZE) 64 (STANDARD_VECTOR_SIZE - 64) X sink st s \<and>
             probe_meets_end X sink s \<longrightarrow>
           (0 < size_chunk (cached_chunk s) \<longrightarrow>
              GetChunk STANDARD_VECTOR_SIZE X this sink chunk st
                = (cached_chunk s,
                   (probe_next X sink s)\<lparr>cached_chunk := Reset (cached_chunk s)\<rparr>, sink)) \<and>
           (size_chunk (cached_chunk s) = 0 \<and> join_type this = OUTER \<longrightarrow>
              GetChunk STANDARD_VECTOR_SIZE X this sink chunk st
                = (fst (ScanFullOuter X (hash_table sink) (ht_scan_state sink)),
                   probe_next X sink s,
                   sink\<lparr>ht_scan_state :=
                          snd (ScanFullOuter X (hash_table sink) (ht_scan_state sink))\<rparr>)) \<and>
           (size_chunk (cached_chunk s) = 0 \<and> join_type this \<noteq> OUTER \<longrightarrow>
              size_chunk (fst (GetChunk STANDARD_VECTOR_SIZE X this sink chunk st)) = 0 \<and>
              snd (GetChunk STANDARD_VECTOR_SIZE X this sink chunk st)
                = (probe_next X sink s, sink)) \<and>
           probe_done X (fst (snd (GetChunk STANDARD_VECTOR_SIZE X this sink chunk st))) \<and>
           size_chunk (cached_chunk
              (fst (snd (GetChunk STANDARD_VECTOR_SIZE X this sink chunk st)))) = 0 \<and>
           (0 < size_chunk (cached_chunk s) \<and> join_type this = OUTER \<longrightarrow>
              fst (GetChunk_calls (Suc n) STANDARD_VECTOR_SIZE X this sink chunk st)
                = cached_chunk s # outer_scan n X (hash_table sink) (ht_scan_state sink)) \<and>
           (0 < size_chunk (cached_chunk s) \<and> join_type this \<noteq> OUTER \<longrightarrow>
              hd (fst (GetChunk_calls (Suc n) STANDARD_VECTOR_SIZE X this sink chunk st))
                = cached_chunk s \<and>
              list_all (\<lambda>c. size_chunk c = 0)
                (tl (fst (GetChunk_calls (Suc n) STANDARD_VECTOR_SIZE X this sink chunk st)))) \<and>
           (size_chunk (cached_chunk s) = 0 \<and> join_type this = OUTER \<longrightarrow>
              fst (GetChunk_calls n STANDARD_VECTOR_SIZE X this sink chunk st)
                = outer_scan n X (hash_table sink) (ht_scan_state sink)) \<and>
           (size_chunk (cached_chunk s) = 0 \<and> join_type this \<noteq> OUTER \<longrightarrow>
              list_all (\<lambda>c. size_chunk c = 0)
                (fst (GetChunk_calls n STANDARD_VECTOR_SIZE X this sink chunk st))) \<and>
           ((\<forall>fs. size_chunk (fst (ScanFullOuter X (hash_table sink) fs)) = 0 \<longrightarrow>
                  size_chunk (fst (ScanFullOuter X (hash_table sink)
                                     (snd (ScanFullOuter X (hash_table sink) fs)))) = 0) \<longrightarrow>
              list_all (\<lambda>c. size_chunk c = 0)
                (dropWhile (\<lambda>c. 0 < size_chunk c)
                   (fst (GetChunk_calls n STANDARD_VECTOR_SIZE X this sink chunk st))))) \<and>
         (child_state (fst (snd (GetChunk STANDARD_VECTOR_SIZE X this sink chunk st))) = [] \<and>
          size_chunk (child_chunk
             (fst (snd (GetChunk STANDARD_VECTOR_SIZE X this sink chunk st)))) = 0 \<longrightarrow>
            (\<exists>s. loop_reaches (128 \<le> STANDARD_VECTOR_SIZE) 64 (STANDARD_VECTOR_SIZE - 64) X sink st s \<and>
                 probe_meets_end X sink s))"
proof -
  let ?caching = "128 \<le> STANDARD_VECTOR_SIZE"
  let ?capacity = "STANDARD_VECTOR_SIZE - 64"
  let ?r = "GetChunk STANDARD_VECTOR_SIZE X this sink chunk st"
  let ?scan = "ScanFullOuter X (hash_table sink) (ht_scan_state sink)"
  let ?outs = "\<lambda>n. fst (GetChunk_calls n STANDARD_VECTOR_SIZE X this sink chunk st)"
  let ?later = "\<lambda>n. fst (GetChunk_calls n STANDARD_VECTOR_SIZE X this (snd (snd ?r)) (fst ?r)
                             (fst (snd ?r)))"
  have loop: "?r = GetChunkLoop ?caching 64 ?capacity X this sink (Reset chunk) st"
    using run by (auto simp: GetChunk_def GetChunkInternal_def)
  have outs_Suc: "?outs (Suc m) = fst ?r # ?later m" for m
    by (simp add: Let_def)
  have covered: "\<exists>s. loop_reaches ?caching 64 ?capacity X sink st s \<and> probe_meets_end X sink s"
    if "child_state (fst (snd ?r)) = []" "size_chunk (child_chunk (fst (snd ?r))) = 0"
    using size_Reset[of chunk] loop that by (rule GetChunkLoop_end_reached)
  have part: "(0 < size_chunk (cached_chunk s) \<longrightarrow>
              ?r = (cached_chunk s,
                   (probe_next X sink s)\<lparr>cached_chunk := Reset (cached_chunk s)\<rparr>, sink)) \<and>
           (size_chunk (cached_chunk s) = 0 \<and> join_type this = OUTER \<longrightarrow>
              ?r = (fst ?scan, probe_next X sink s, sink\<lparr>ht_scan_state := snd ?scan\<rparr>)) \<and>
           (size_chunk (cached_chunk s) = 0 \<and> join_type this \<noteq> OUTER \<longrightarrow>
              size_chunk (fst ?r) = 0 \<and> snd ?r = (probe_next X sink s, sink)) \<and>
           probe_done X (fst (snd ?r)) \<and>
           size_chunk (cached_chunk (fst (snd ?r))) = 0 \<and>
           (0 < size_chunk (cached_chunk s) \<and> join_type this = OUTER \<longrightarrow>
              ?outs (Suc n) = cached_chunk s # outer_scan n X (hash_table sink) (ht_scan_state sink)) \<and>
           (0 < size_chunk (cached_chunk s) \<and> join_type this \<noteq> OUTER \<longrightarrow>
              hd (?outs (Suc n)) = cached_chunk s \<and>
              list_all (\<lambda>c. size_chunk c = 0) (tl (?outs (Suc n)))) \<and>
           (size_chunk (cached_chunk s) = 0 \<and> join_type this = OUTER \<longrightarrow>
              ?outs n = outer_scan n X (hash_table sink) (ht_scan_state sink)) \<and>
           (size_chunk (cached_chunk s) = 0 \<and> join_type this \<noteq> OUTER \<longrightarrow>
              list_all (\<lambda>c. size_chunk c = 0) (?outs n)) \<and>
           ((\<forall>fs. size_chunk (fst (ScanFullOuter X (hash_table sink) fs)) = 0 \<longrightarrow>
                  size_chunk (fst (ScanFullOuter X (hash_table sink)
                                     (snd (ScanFullOuter X (hash_table sink) fs)))) = 0) \<longrightarrow>
              list_all (\<lambda>c. size_chunk c = 0) (dropWhile (\<lambda>c. 0 < size_chunk c) (?outs n)))"
    if reach: "loop_reaches ?caching 64 ?capacity X sink st s" and ended: "probe_meets_end X sink s"
    for s
  proof -
    obtain ch where ch: "size_chunk ch = 0"
      and eq: "?r = GetChunkLoop ?caching 64 ?capacity X this sink ch s"
      using loop_reaches_GetChunkLoop[OF reach size_Reset[of chunk], of this] loop by auto
    have slice: "size_chunk (probe_slice X sink s) = 0"
      using ended by (rule probe_meets_end_slice)
    have caching: "0 < size_chunk (cached_chunk s) \<longrightarrow> ?caching"
      using reach cache by (rule loop_reaches_cache)
    have empty: "size_chunk (fst (ProbeHashTable X sink ch s)) = 0"
      using slice by (simp add: ProbeHashTable_slice(2)[OF ch])
    have r: "?r = (if 0 < size_chunk (cached_chunk s)
                   then (cached_chunk s,
                         (probe_next X sink s)\<lparr>cached_chunk := Reset (cached_chunk s)\<rparr>, sink)
                   else if join_type this = OUTER
                   then (fst ?scan, probe_next X sink s, sink\<lparr>ht_scan_state := snd ?scan\<rparr>)
                   else (fst (ProbeHashTable X sink ch s), probe_next X sink s, sink))"
      unfolding eq GetChunkLoop_step[OF ch] using slice caching by simp
    have dead: "child_state (fst (snd ?r)) = []" "size_chunk (child_chunk (fst (snd ?r))) = 0"
      using ended by (simp_all add: r probe_meets_end_def)
    have pd: "probe_done X (fst (snd ?r))"
      using dead by (rule probe_done_after)
    have cleared: "size_chunk (cached_chunk (fst (snd ?r))) = 0"
      by (simp add: r probe_next_cached)
    have table: "hash_table (snd (snd ?r)) = hash_table sink"
      by (simp add: r)
    have run': "ht_count (hash_table (snd (snd ?r))) \<noteq> 0 \<or>
                (ht_join_type (hash_table (snd (snd ?r))) \<noteq> INNER \<and>
                 ht_join_type (hash_table (snd (snd ?r))) \<noteq> SEMI)"
      using run by (simp only: table)
    have later_outer: "?later m = outer_scan m X (hash_table sink) (ht_scan_state (snd (snd ?r)))"
      if "join_type this = OUTER" for m
      using outer_calls_run[OF pd cleared that run', of m STANDARD_VECTOR_SIZE "fst ?r"]
      by (simp only: table)
    have later_other: "list_all (\<lambda>c. size_chunk c = 0) (?later m)"
      if "join_type this \<noteq> OUTER" for m
      using pd cleared that by (rule other_calls)
    have flush_outer: "?outs (Suc n) = cached_chunk s # outer_scan n X (hash_table sink) (ht_scan_state sink)"
      if "0 < size_chunk (cached_chunk s)" "join_type this = OUTER"
      using that later_outer[OF that(2), of n] by (simp only: outs_Suc) (simp add: r)
    have flush_other: "hd (?outs (Suc n)) = cached_chunk s \<and>
                       list_all (\<lambda>c. size_chunk c = 0) (tl (?outs (Suc n)))"
      if "0 < size_chunk (cached_chunk s)" "join_type this \<noteq> OUTER"
      using that later_other[OF that(2), of n] by (simp only: outs_Suc) (simp add: r)
    have scan: "?outs m = outer_scan m X (hash_table sink) (ht_scan_state sink)"
      if "size_chunk (cached_chunk s) = 0" "join_type this = OUTER" for m
    proof (cases m)
      case 0
      then show ?thesis by simp
    next
      case (Suc k)
      show ?thesis
        unfolding Suc using that later_outer[OF that(2), of k]
        by (simp only: outs_Suc) (simp add: r)
    qed
    have none: "list_all (\<lambda>c. size_chunk c = 0) (?outs m)"
      if "size_chunk (cached_chunk s) = 0" "join_type this \<noteq> OUTER" for m
    proof (cases m)
      case 0
      then show ?thesis by simp
    next
      case (Suc k)
      show ?thesis
        unfolding Suc using that later_other[OF that(2), of k] empty
        by (simp only: outs_Suc) (simp add: r)
    qed
    have stays: "list_all (\<lambda>c. size_chunk c = 0) (dropWhile (\<lambda>c. 0 < size_chunk c) (?outs n))"
      if contract: "\<forall>fs. size_chunk (fst (ScanFullOuter X (hash_table sink) fs)) = 0 \<longrightarrow>
                  size_chunk (fst (ScanFullOuter X (hash_table sink)
                                     (snd (ScanFullOuter X (hash_table sink) fs)))) = 0"
    proof -
      have c: "size_chunk (fst (ScanFullOuter X (hash_table sink)
                                     (snd (ScanFullOuter X (hash_table sink) fs)))) = 0"
        if "size_chunk (fst (ScanFullOuter X (hash_table sink) fs)) = 0" for fs
        using contract[rule_format, OF that] .
      have scans: "list_all (\<lambda>c. size_chunk c = 0)
                     (dropWhile (\<lambda>c. 0 < size_chunk c) (outer_scan m X (hash_table sink) cursor))"
        for m cursor
        using c by (rule outer_scan_dropWhile)
      show ?thesis
      proof (cases "0 < size_chunk (cached_chunk s)")
        case False
        then show ?thesis
          using scan[of n] none[of n] scans[of n "ht_scan_state sink"]
          by (cases "join_type this = OUTER") (simp_all add: list_all_dropWhile)
      next
        case True
        show ?thesis
        proof (cases n)
          case 0
          then show ?thesis by simp
        next
          case (Suc k)
          have first: "fst ?r = cached_chunk s"
            using True by (simp add: r)
          have "list_all (\<lambda>c. size_chunk c = 0) (dropWhile (\<lambda>c. 0 < size_chunk c) (?later k))"
            using later_outer[of k] later_other[of k]
              scans[of k "ht_scan_state (snd (snd ?r))"]
            by (cases "join_type this = OUTER") (simp_all add: list_all_dropWhile)
          then show ?thesis
            unfolding Suc using True by (simp only: outs_Suc first) simp
        qed
      qed
    qed
    show ?thesis
      using r empty pd cleared flush_outer flush_other scan[of n] none[of n] stays
      by (simp split: if_splits)
  qed
  show ?thesis
    apply (rule conjI)
     apply (rule allI)
     apply (rule impI)
     apply (erule conjE)
     apply (rule part; assumption)
    apply (rule impI)
    apply (erule conjE)
    apply (rule covered; assumption)
    done
qed

theorem end_of_probe_side_witness:
  "ht_count (hash_table (example_sink OUTER 5 [rows_chunk 1 7])) \<noteq> 0 \<and>
   size_chunk (cached_chunk (example_state OUTER [rows_chunk 1 9])) = 0 \<and>
   child_state (example_state OUTER [rows_chunk 1 9]
                  :: (nat, unit, nat, nat DataChunk list) PhysicalHashJoinState)
     = [rows_chunk 1 9] \<and>
   loop_reaches (128 \<le> (1024::nat)) 64 (1024 - 64) (example_collaborators [rows_chunk 1 2])
     (example_sink OUTER 5 [rows_chunk 1 7]) (example_state OUTER [rows_chunk 1 9])
     example_outer_caching_state \<and>
   probe_meets_end (example_collaborators [rows_chunk 1 2]) (example_sink OUTER 5 [rows_chunk 1 7])
     example_outer_caching_state \<and>
   cached_chunk example_outer_caching_state = rows_chunk 1 2 \<and>
   join_type (example_join OUTER) = OUTER \<and>
   fst (GetChunk_calls (Suc (Suc (Suc 0))) 1024
          (example_collaborators [rows_chunk 1 2]) (example_join OUTER)
          (example_sink OUTER 5 [rows_chunk 1 7]) (rows_chunk 0 0)
          (example_state OUTER [rows_chunk 1 9]))
     = [rows_chunk 1 2, rows_chunk 1 7, rows_chunk 0 0]"
proof -
  let ?X = "example_collaborators [rows_chunk 1 2]"
  let ?sink = "example_sink OUTER 5 [rows_chunk 1 7]"
  let ?st = "example_state OUTER [rows_chunk 1 9]
               :: (nat, unit, nat, nat DataChunk list) PhysicalHashJoinState"
  have count: "ht_count (hash_table ?sink) \<noteq> 0"
    by (simp add: example_sink_def)
  have run: "ht_count (hash_table ?sink) \<noteq> 0 \<or>
              (ht_join_type (hash_table ?sink) \<noteq> INNER \<and> ht_join_type (hash_table ?sink) \<noteq> SEMI)"
    using count by simp
  have empty: "size_chunk (cached_chunk ?st) = 0"
    by (simp add: example_state_def GetOperatorState_def Initialize_def size_chunk_def)
  have cache: "0 < size_chunk (cached_chunk ?st) \<longrightarrow> 128 \<le> (1024::nat)"
    by simp
  have stream: "child_state ?st = [rows_chunk 1 9]"
    by (simp add: example_state_def GetOperatorState_def)
  have cached: "cached_chunk example_outer_caching_state = rows_chunk 1 2"
    by (simp add: example_outer_caching_state_def)
  have nonempty: "0 < size_chunk (cached_chunk example_outer_caching_state)"
    by (simp only: cached) (simp add: rows_chunk_def size_chunk_def)
  have outer: "join_type (example_join OUTER) = OUTER"
    by (simp add: example_join_def)
  have scan: "outer_scan (Suc (Suc 0)) ?X (hash_table ?sink) (ht_scan_state ?sink)
                = [rows_chunk 1 7, rows_chunk 0 0]"
    by (simp add: example_sink_def example_collaborators_def)
  have "fst (GetChunk_calls (Suc (Suc (Suc 0))) 1024 ?X (example_join OUTER) ?sink
               (rows_chunk 0 0) ?st)
          = cached_chunk example_outer_caching_state #
            outer_scan (Suc (Suc 0)) ?X (hash_table ?sink) (ht_scan_state ?sink)"
    using end_of_probe_side[OF run cache, of ?X "example_join OUTER" "rows_chunk 0 0" "Suc (Suc 0)"]
      example_outer_reaches example_outer_meets_end nonempty outer
    by blast
  then have "fst (GetChunk_calls (Suc (Suc (Suc 0))) 1024 ?X (example_join OUTER) ?sink
               (rows_chunk 0 0) ?st)
          = [rows_chunk 1 2, rows_chunk 1 7, rows_chunk 0 0]"
    by (simp only: cached scan)
  then show ?thesis
    using count empty stream example_outer_reaches example_outer_meets_end cached outer by blast
qed

section \<open>Coalescing and the rows of the output\<close>

text \<open>
  \<^bold>\<open>C2\<close>, as stated, fails in its second half: the coalescing changes the order of rows within
  one probe-side batch's result set. The stream has one batch, whose probe yields slices of 64
  rows of 1, one row of 2 and 64 rows of 3. A build with \<^verbatim>\<open>STANDARD_VECTOR_SIZE\<close> 1024 caches the
  small slice, returns the third slice before it and flushes it last; a build with
  \<^verbatim>\<open>STANDARD_VECTOR_SIZE\<close> 64 has no coalescing and returns the slices in their order. The
  65th row of the output is a row of 3 in the first build and the row of 2 in the second.
\<close>

theorem coalescing_order_counterexample:
  "child_state (example_state LEFT [rows_chunk 1 9]
                  :: (nat, unit, nat, nat DataChunk list) PhysicalHashJoinState)
     = [rows_chunk 1 9] \<and>
   fst (GetChunk_calls (Suc (Suc (Suc (Suc 0)))) 1024
          (example_collaborators [rows_chunk 64 1, rows_chunk 1 2, rows_chunk 64 3])
          (example_join LEFT) (example_sink LEFT 5 []) (rows_chunk 0 0)
          (example_state LEFT [rows_chunk 1 9]))
     = [rows_chunk 64 1, rows_chunk 64 3, rows_chunk 1 2, rows_chunk 0 0] \<and>
   fst (GetChunk_calls (Suc (Suc (Suc (Suc 0)))) 64
          (example_collaborators [rows_chunk 64 1, rows_chunk 1 2, rows_chunk 64 3])
          (example_join LEFT) (example_sink LEFT 5 []) (rows_chunk 0 0)
          (example_state LEFT [rows_chunk 1 9]))
     = [rows_chunk 64 1, rows_chunk 1 2, rows_chunk 64 3, rows_chunk 0 0] \<and>
   concat (map rows_of [rows_chunk 64 1, rows_chunk 64 3, rows_chunk 1 2, rows_chunk 0 0]) ! 64
     = [3, 3] \<and>
   concat (map rows_of [rows_chunk 64 1, rows_chunk 1 2, rows_chunk 64 3, rows_chunk 0 0]) ! 64
     = [2, 2]"
  apply (intro conjI)
      apply (simp add: example_state_def GetOperatorState_def)
     apply (simp add: example_defs)
    apply (simp add: example_defs)
   apply (simp add: rows_of_rows_chunk nth_append)
  apply (simp add: rows_of_rows_chunk nth_append)
  done

text \<open>
  \<^bold>\<open>C2\<close>, amended. Over a whole probe phase, the caller pulling batches until the first empty
  one, every coalescing configuration (coalescing compiled in or not, any small-batch
  threshold, any flush capacity) comes to its end after finitely many calls, and the multiset
  of all rows returned is the same for any two of them. This holds from a state with an empty
  cache of \<open>k\<close> columns, for a child whose stream has no empty batch before its end, for
  collaborators whose slices all have \<open>k\<close> columns filled to their row count, when every scan structure
  and the full-outer scan hand out finitely many non-empty slices (a bound that each of them
  lowers), and unless the hash table is empty and \<^verbatim>\<open>ConstructEmptyJoinResult\<close> drops a non-empty
  batch. The batches a configuration returns do not depend on the number of calls allowed
  beyond the end. The order of rows within one probe-side batch's result set is not preserved:
  cached rows surface after later large slices; and the rows are counted over the whole
  phase because cached rows of one probe-side batch surface together with rows of later ones
  (lemma \<open>coalescing_across_batches\<close>).
\<close>

theorem coalescing_preserves_rows:
  fixes X :: "('t, 'x, 'v, 'h, 'ss, 'fs) collaborators"
    and slices_left :: "'ss \<Rightarrow> nat" and scan_left :: "'fs \<Rightarrow> nat"
  assumes cache: "size_chunk (cached_chunk st) = 0" "chunk_wf k (cached_chunk st)"
    and stream: "list_all (\<lambda>b. 0 < size_chunk b) (child_state st)"
    and next_wf: "\<forall>ss keys b. chunk_wf k (fst (Next X ss keys b))"
    and empty_wf: "\<forall>jt hn b. chunk_wf k (ConstructEmptyJoinResult X jt hn b)"
    and table: "ht_count (hash_table sink) \<noteq> 0 \<or>
         (\<forall>b. 0 < size_chunk b \<longrightarrow>
              0 < size_chunk (ConstructEmptyJoinResult X (ht_join_type (hash_table sink))
                                (has_null (hash_table sink)) b))"
    and slices: "\<forall>ss keys b. size_chunk (fst (Next X ss keys b)) = 0 \<or>
                   slices_left (snd (Next X ss keys b)) < slices_left ss"
    and scan: "\<forall>ht fs. size_chunk (fst (ScanFullOuter X ht fs)) = 0 \<or>
                   scan_left (snd (ScanFullOuter X ht fs)) < scan_left fs"
  shows "\<exists>n1 outs1 n2 outs2.
           drain n1 caching1 threshold1 capacity1 X this sink chunk st = Some outs1 \<and>
           drain n2 caching2 threshold2 capacity2 X this sink chunk st = Some outs2 \<and>
           rows_mset outs1 = rows_mset outs2 \<and>
           (\<forall>n outs. drain n caching1 threshold1 capacity1 X this sink chunk st = Some outs
                      \<longrightarrow> outs = outs1) \<and>
           (\<forall>n outs. drain n caching2 threshold2 capacity2 X this sink chunk st = Some outs
                      \<longrightarrow> outs = outs2)"
proof -
  have ends: "\<exists>n outs. drain n caching threshold capacity X this sink chunk st = Some outs"
    for caching threshold capacity
    using slices[rule_format] scan[rule_format] by (rule drain_terminates)
  obtain n1 outs1 where d1: "drain n1 caching1 threshold1 capacity1 X this sink chunk st = Some outs1"
    using ends by blast
  obtain n2 outs2 where d2: "drain n2 caching2 threshold2 capacity2 X this sink chunk st = Some outs2"
    using ends by blast
  have same: "rows_mset outs1 = rows_mset outs2"
    using d1 d2 cache stream next_wf empty_wf table by (rule drained_rows_same)
  have u1: "outs = outs1"
    if "drain n caching1 threshold1 capacity1 X this sink chunk st = Some outs" for n outs
    using that d1 by (rule drain_deterministic)
  have u2: "outs = outs2"
    if "drain n caching2 threshold2 capacity2 X this sink chunk st = Some outs" for n outs
    using that d2 by (rule drain_deterministic)
  show ?thesis
    apply (rule exI[of _ n1])
    apply (rule exI[of _ outs1])
    apply (rule exI[of _ n2])
    apply (rule exI[of _ outs2])
    apply (intro conjI allI impI)
        apply (rule d1)
       apply (rule d2)
      apply (rule same)
     apply (erule u1)
    apply (erule u2)
    done
qed

theorem coalescing_preserves_rows_witness:
  "size_chunk (cached_chunk example_counting_state) = 0 \<and>
   chunk_wf 2 (cached_chunk example_counting_state) \<and>
   list_all (\<lambda>b. 0 < size_chunk b) (child_state example_counting_state) \<and>
   (\<forall>ss keys b. chunk_wf 2 (fst (Next example_counting_collaborators ss keys b))) \<and>
   (\<forall>jt hn b. chunk_wf 2 (ConstructEmptyJoinResult example_counting_collaborators jt hn b)) \<and>
   ht_count (hash_table example_counting_sink) \<noteq> 0 \<and>
   drain (Suc (Suc 0)) True 64 960 example_counting_collaborators (example_join LEFT)
     example_counting_sink (rows_chunk 0 0) example_counting_state
     = Some [\<lparr>data = [[2, 2, 1], [2, 2, 1]], cardinality = 3\<rparr>] \<and>
   drain (Suc (Suc (Suc 0))) False 64 0 example_counting_collaborators (example_join LEFT)
     example_counting_sink (rows_chunk 0 0) example_counting_state
     = Some [rows_chunk 2 2, rows_chunk 1 1] \<and>
   rows_mset [\<lparr>data = [[2, 2, 1], [2, 2, 1]], cardinality = 3\<rparr>]
     = rows_mset [rows_chunk 2 2, rows_chunk 1 1]"
proof -
  let ?X = "example_counting_collaborators"
  have empty: "size_chunk (cached_chunk example_counting_state) = 0"
    by (simp add: example_counting_state_def GetOperatorState_def Initialize_def size_chunk_def)
  have wf: "chunk_wf 2 (cached_chunk example_counting_state)"
    by (simp add: example_counting_state_def GetOperatorState_def Initialize_def chunk_wf_def
          example_join_def)
  have stream: "list_all (\<lambda>b. 0 < size_chunk b) (child_state example_counting_state)"
    by (simp add: example_counting_state_def GetOperatorState_def rows_chunk_def size_chunk_def)
  have next_wf: "\<forall>ss keys b. chunk_wf 2 (fst (Next ?X ss keys b))"
    by (simp add: example_counting_collaborators_def chunk_wf_rows_chunk)
  have empty_wf: "\<forall>jt hn b. chunk_wf 2 (ConstructEmptyJoinResult ?X jt hn b)"
    by (simp add: example_counting_collaborators_def chunk_wf_rows_chunk)
  have count: "ht_count (hash_table example_counting_sink) \<noteq> 0"
    by (simp add: example_counting_sink_def)
  have table: "ht_count (hash_table example_counting_sink) \<noteq> 0 \<or>
         (\<forall>b. 0 < size_chunk b \<longrightarrow>
              0 < size_chunk (ConstructEmptyJoinResult ?X
                                (ht_join_type (hash_table example_counting_sink))
                                (has_null (hash_table example_counting_sink)) b))"
    using count by simp
  have slices: "\<forall>ss keys b. size_chunk (fst (Next ?X ss keys b)) = 0 \<or>
                   (\<lambda>ss. ss) (snd (Next ?X ss keys b)) < (\<lambda>ss. ss) ss"
    by (simp add: example_counting_collaborators_def rows_chunk_def size_chunk_def)
  have scan: "\<forall>ht fs. size_chunk (fst (ScanFullOuter ?X ht fs)) = 0 \<or>
                   (\<lambda>fs. fs) (snd (ScanFullOuter ?X ht fs)) < (\<lambda>fs. fs) fs"
    by (simp add: example_counting_collaborators_def rows_chunk_def size_chunk_def)
  obtain outs1 outs2 where
    same: "rows_mset outs1 = rows_mset outs2" and
    u1: "\<forall>n outs. drain n True 64 960 ?X (example_join LEFT) example_counting_sink
                        (rows_chunk 0 0) example_counting_state = Some outs \<longrightarrow> outs = outs1" and
    u2: "\<forall>n outs. drain n False 64 0 ?X (example_join LEFT) example_counting_sink
                        (rows_chunk 0 0) example_counting_state = Some outs \<longrightarrow> outs = outs2"
    using coalescing_preserves_rows[OF empty wf stream next_wf empty_wf table slices scan,
            of True 64 960 "example_join LEFT" "rows_chunk 0 0" False 64 0]
    by blast
  have "outs1 = [\<lparr>data = [[2, 2, 1], [2, 2, 1]], cardinality = 3\<rparr>]"
    using u1 example_drain_coalesced by blast
  moreover have "outs2 = [rows_chunk 2 2, rows_chunk 1 1]"
    using u2 example_drain_uncoalesced by blast
  ultimately have "rows_mset [\<lparr>data = [[2, 2, 1], [2, 2, 1]], cardinality = 3\<rparr>]
          = rows_mset [rows_chunk 2 2, rows_chunk 1 1]"
    using same by simp
  then show ?thesis
    using example_drain_coalesced example_drain_uncoalesced empty wf stream next_wf empty_wf count
    by blast
qed

end
